theory Spec2Isabelle
  imports Main "HOL-Library.Sublist"
begin

section \<open>Data model of the test-case synchronisation script\<close>

text \<open>
  The script \<^verbatim>\<open>tests/TestData/AzureDevOpsClient.mjs\<close> reads test-case definitions from
  a JSON file. A field of a JSON object may be absent (\<^verbatim>\<open>undefined\<close> in JavaScript), so
  every field is an option; a present field has the type the data model gives it (strings,
  a number for the priority, arrays for tags and steps). \<open>steps tc = None\<close> covers both an
  absent field and a value that is not an array (\<^verbatim>\<open>Array.isArray\<close> is false for both).
\<close>

record step_def =
  action :: "string option"
  expected :: "string option"

record test_case =
  id_tc :: "string option"
  title :: "string option"
  priority :: "int option"
  category :: "string option"
  tags :: "string list option"
  steps :: "step_def list option"

text \<open>JavaScript truthiness, on an optional string (\<^verbatim>\<open>undefined\<close> and \<^verbatim>\<open>""\<close> are falsy)
  and on an optional number (\<^verbatim>\<open>undefined\<close> and \<^verbatim>\<open>0\<close> are falsy).\<close>

definition truthy :: "string option \<Rightarrow> bool" where
  "truthy v = (case v of None \<Rightarrow> False | Some s \<Rightarrow> s \<noteq> [])"

definition truthyNum :: "int option \<Rightarrow> bool" where
  "truthyNum v = (case v of None \<Rightarrow> False | Some n \<Rightarrow> n \<noteq> 0)"

section \<open>Rendering numbers in template literals\<close>

definition digitChar :: "nat \<Rightarrow> char" where
  "digitChar d = ''0123456789'' ! d"

fun showNat :: "nat \<Rightarrow> string" where
  "showNat n = (if n < 10 then [digitChar n] else showNat (n div 10) @ [digitChar (n mod 10)])"

declare showNat.simps [simp del]

definition showInt :: "int \<Rightarrow> string" where
  "showInt i = (if i < 0 then CHR ''-'' # showNat (nat (- i)) else showNat (nat i))"

section \<open>XML escaping and the steps markup\<close>

text \<open>\<^verbatim>\<open>str.replace(/c/g, r)\<close> for a one-character pattern \<open>c\<close>: every occurrence of
  \<open>c\<close> is replaced by \<open>r\<close>, left to right.\<close>

definition replaceAll :: "char \<Rightarrow> string \<Rightarrow> string \<Rightarrow> string" where
  "replaceAll c r s = concat (map (\<lambda>x. if x = c then r else [x]) s)"

text \<open>\<^verbatim>\<open>function xmlEscape(str = "")\<close>: the default applies to an absent argument; the
  three replacements run one after the other, \<^verbatim>\<open>&\<close> first.\<close>

definition xmlEscape :: "string option \<Rightarrow> string" where
  "xmlEscape str =
     replaceAll CHR ''>'' ''&gt;''
       (replaceAll CHR ''<'' ''&lt;''
         (replaceAll CHR ''&'' ''&amp;'' (case str of None \<Rightarrow> [] | Some s \<Rightarrow> s)))"

definition dq :: string where
  "dq = [CHR 0x22]"

definition nl :: string where
  "nl = [CHR 0x0A]"

text \<open>The template literal of one step; \<open>i\<close> is the zero-based index \<^verbatim>\<open>map\<close> passes.\<close>

definition stepXml :: "step_def \<Rightarrow> nat \<Rightarrow> string" where
  "stepXml s i =
     ''<step id='' @ dq @ showNat (i + 1) @ dq @ '' type='' @ dq @ ''ActionStep'' @ dq @ ''>'' @ nl @
     ''  <parameterizedString isformatted='' @ dq @ ''true'' @ dq @ ''>'' @ xmlEscape (action s) @
     ''</parameterizedString>'' @ nl @
     ''  <parameterizedString isformatted='' @ dq @ ''true'' @ dq @ ''>'' @ xmlEscape (expected s) @
     ''</parameterizedString>'' @ nl @
     ''</step>''"

definition buildStepsXml :: "step_def list \<Rightarrow> string" where
  "buildStepsXml stps =
     (let inner = concat (map (\<lambda>(i, s). stepXml s i) (enumerate 0 stps))
      in ''<steps id='' @ dq @ ''0'' @ dq @ ''>'' @ inner @ ''</steps>'')"

section \<open>The field-patch body of a test case\<close>

datatype patch_value = VUndefined | VStr string | VNum int

record patch_op =
  op :: string
  path :: string
  val :: patch_value

text \<open>\<^verbatim>\<open>Array.prototype.join\<close>: the elements separated by \<open>sep\<close>; \<^verbatim>\<open>null\<close> elements
  render as the empty string.\<close>

fun join :: "string \<Rightarrow> string list \<Rightarrow> string" where
  "join sep [] = []"
| "join sep [x] = x"
| "join sep (x # y # ys) = x @ sep @ join sep (y # ys)"

definition orEmpty :: "string option \<Rightarrow> string" where
  "orEmpty v = (case v of None \<Rightarrow> [] | Some s \<Rightarrow> s)"

text \<open>The array \<^verbatim>\<open>tagParts\<close>: the explicit tags, then the two synthesized tags or
  \<^verbatim>\<open>null\<close>, filtered by \<^verbatim>\<open>Boolean\<close> (which drops \<^verbatim>\<open>null\<close> and the empty string).\<close>

definition tagParts :: "test_case \<Rightarrow> string option list" where
  "tagParts tc =
     filter truthy
       (map Some (case tags tc of None \<Rightarrow> [] | Some ts \<Rightarrow> ts) @
        [if truthy (id_tc tc) then Some (''LogicalID:'' @ orEmpty (id_tc tc)) else None,
         if truthy (category tc) then Some (''Category:'' @ orEmpty (category tc)) else None])"

definition tagsOf :: "test_case \<Rightarrow> string" where
  "tagsOf tc = join ''; '' (map orEmpty (tagParts tc))"

definition buildTestCaseBody :: "test_case \<Rightarrow> patch_op list" where
  "buildTestCaseBody tc =
     (let stepsXml = buildStepsXml (case steps tc of None \<Rightarrow> [] | Some ss \<Rightarrow> ss);
          tgs = tagsOf tc;
          body =
            [\<lparr>op = ''add'', path = ''/fields/System.Title'',
              val = (case title tc of None \<Rightarrow> VUndefined | Some t \<Rightarrow> VStr t)\<rparr>,
             \<lparr>op = ''add'', path = ''/fields/Microsoft.VSTS.TCM.Steps'', val = VStr stepsXml\<rparr>,
             \<lparr>op = ''add'', path = ''/fields/System.Tags'', val = VStr tgs\<rparr>]
      in if truthyNum (priority tc)
         then body @ [\<lparr>op = ''add'', path = ''/fields/Microsoft.VSTS.Common.Priority'',
                       val = (case priority tc of None \<Rightarrow> VUndefined | Some p \<Rightarrow> VNum p)\<rparr>]
         else body)"

section \<open>The Azure DevOps client\<close>

text \<open>A thrown JavaScript \<^verbatim>\<open>Error\<close>, with its message.\<close>

datatype error = Error (message: string)

text \<open>
  A configuration value, as \<^verbatim>\<open>nconf.get\<close> returns it: \<^verbatim>\<open>undefined\<close> for a key that is
  nowhere, or a JSON value of the file (the command line and the environment give
  strings). \<open>COther\<close> is any array or object, given with the text \<^verbatim>\<open>String\<close> yields for
  it. \<open>truthyConf\<close> is JavaScript truthiness and \<open>toText\<close> is the text a template literal
  inserts.
\<close>

datatype conf_value =
  CUndefined | CNull | CBool bool | CNumber int | CString string | COther string

fun truthyConf :: "conf_value \<Rightarrow> bool" where
  "truthyConf CUndefined = False"
| "truthyConf CNull = False"
| "truthyConf (CBool b) = b"
| "truthyConf (CNumber n) = (n \<noteq> 0)"
| "truthyConf (CString s) = (s \<noteq> [])"
| "truthyConf (COther t) = True"

fun toText :: "conf_value \<Rightarrow> string" where
  "toText CUndefined = ''undefined''"
| "toText CNull = ''null''"
| "toText (CBool b) = (if b then ''true'' else ''false'')"
| "toText (CNumber n) = showInt n"
| "toText (CString s) = s"
| "toText (COther t) = t"

record config =
  keyVaultUrl :: conf_value
  azureDevOpsPatSecretName :: conf_value
  azureDevOpsOrgUrl :: conf_value
  azureDevOpsProject :: conf_value
  azureDevOpsPlanId :: conf_value
  azureDevOpsSuiteId :: conf_value

text \<open>
  \<^verbatim>\<open>_loadConfig\<close>. The libraries it calls are parameters: \<open>findup\<close> is the result of
  \<^verbatim>\<open>findup('config.json')\<close> (the upward search; \<open>None\<close> when no file is found), and
  \<open>nconfLoad p\<close> is \<^verbatim>\<open>nconf.argv().env().file(p)\<close>: it throws (a file that cannot be read
  or parsed) or yields what \<^verbatim>\<open>nconf.get\<close> returns from then on. Every throw inside the
  \<^verbatim>\<open>try\<close> is logged and thrown again. The required fields are checked in the order of
  the object literal, and the object is stored as the configuration.
\<close>

definition requiredFields :: "(string \<Rightarrow> conf_value) \<Rightarrow> (string \<times> conf_value) list" where
  "requiredFields get =
     [(''keyVaultUrl'', get ''keyVaultUrl''),
      (''azureDevOpsPatSecretName'', get ''azureDevOpsPatSecretName''),
      (''azureDevOpsOrgUrl'', get ''azureDevOpsOrgUrl''),
      (''azureDevOpsProject'', get ''azureDevOpsProject''),
      (''azureDevOpsPlanId'', get ''azureDevOpsPlanId''),
      (''azureDevOpsSuiteId'', get ''azureDevOpsSuiteId'')]"

fun checkFields :: "(string \<times> conf_value) list \<Rightarrow> error option" where
  "checkFields [] = None"
| "checkFields ((field, v) # rest) =
     (if \<not> truthyConf v then Some (Error (''Missing required configuration: '' @ field))
      else checkFields rest)"

definition loadConfig ::
  "string option \<Rightarrow> (string \<Rightarrow> error + (string \<Rightarrow> conf_value)) \<Rightarrow> error + config" where
  "loadConfig findup nconfLoad =
     (case findup of
        None \<Rightarrow> Inl (Error ''Cannot find the config file config.json'')
      | Some configPath \<Rightarrow>
          (case nconfLoad configPath of
             Inl e \<Rightarrow> Inl e
           | Inr get \<Rightarrow>
               (case checkFields (requiredFields get) of
                  Some e \<Rightarrow> Inl e
                | None \<Rightarrow>
                    Inr \<lparr>keyVaultUrl = get ''keyVaultUrl'',
                         azureDevOpsPatSecretName = get ''azureDevOpsPatSecretName'',
                         azureDevOpsOrgUrl = get ''azureDevOpsOrgUrl'',
                         azureDevOpsProject = get ''azureDevOpsProject'',
                         azureDevOpsPlanId = get ''azureDevOpsPlanId'',
                         azureDevOpsSuiteId = get ''azureDevOpsSuiteId''\<rparr>)))"

text \<open>
  \<^verbatim>\<open>_fetchSecrets\<close>: \<open>getSecret vault name\<close> is the Key Vault lookup, which throws or
  returns \<^verbatim>\<open>patSecret?.value\<close> (possibly absent); a falsy value is an error.
\<close>

definition fetchSecrets ::
  "(conf_value \<Rightarrow> conf_value \<Rightarrow> error + string option) \<Rightarrow> config \<Rightarrow> error + string" where
  "fetchSecrets getSecret cfg =
     (case getSecret (keyVaultUrl cfg) (azureDevOpsPatSecretName cfg) of
        Inl e \<Rightarrow> Inl e
      | Inr v \<Rightarrow>
          (if \<not> truthy v then Inl (Error ''Failed to retrieve Azure DevOps PAT from Key Vault'')
           else Inr (orEmpty v)))"

record client =
  cfg :: config
  pat :: string
  auth :: string
  baseHeaders :: "(string \<times> string) list"

text \<open>\<^verbatim>\<open>_setupAuth\<close>; \<open>base64\<close> stands for \<^verbatim>\<open>Buffer.from(s).toString("base64")\<close>.\<close>

definition setupAuth :: "(string \<Rightarrow> string) \<Rightarrow> config \<Rightarrow> string \<Rightarrow> client" where
  "setupAuth base64 c p =
     (let a = base64 (CHR '':'' # p)
      in \<lparr>cfg = c, pat = p, auth = a,
          baseHeaders =
            [(''Authorization'', ''Basic '' @ a),
             (''Content-Type'', ''application/json-patch+json''),
             (''Accept'', ''application/json'')]\<rparr>)"

definition initialize ::
  "string option \<Rightarrow> (string \<Rightarrow> error + (string \<Rightarrow> conf_value)) \<Rightarrow>
   (conf_value \<Rightarrow> conf_value \<Rightarrow> error + string option) \<Rightarrow> (string \<Rightarrow> string) \<Rightarrow> error + client" where
  "initialize findup nconfLoad getSecret base64 =
     (case loadConfig findup nconfLoad of
        Inl e \<Rightarrow> Inl e
      | Inr c \<Rightarrow>
          (case fetchSecrets getSecret c of
             Inl e \<Rightarrow> Inl e
           | Inr p \<Rightarrow> Inr (setupAuth base64 c p)))"

text \<open>
  The two remote operations are HTTP posts. The remote system is a parameter: given the
  requests posted so far in this run and the new request, \<^verbatim>\<open>axios.post\<close> either throws
  or returns a response, of which the script reads \<^verbatim>\<open>response.data.id\<close>. Each operation
  returns its result and the extended list of posted requests.
\<close>

datatype http_data = PatchDocument "patch_op list" | EmptyObject

record http_request =
  url :: string
  payload :: http_data
  headers :: "(string \<times> string) list"

type_synonym axios = "http_request list \<Rightarrow> http_request \<Rightarrow> error + int"

definition createTestCaseRequest :: "client \<Rightarrow> patch_op list \<Rightarrow> http_request" where
  "createTestCaseRequest cl testCase =
     \<lparr>url = toText (azureDevOpsOrgUrl (cfg cl)) @ toText (azureDevOpsProject (cfg cl)) @
             ''/_apis/wit/workitems/$Test%20Case?api-version=7.0'',
      payload = PatchDocument testCase,
      headers = baseHeaders cl\<rparr>"

definition createTestCase ::
  "client \<Rightarrow> axios \<Rightarrow> http_request list \<Rightarrow> patch_op list \<Rightarrow> (error + int) \<times> http_request list" where
  "createTestCase cl post posted testCase =
     (let req = createTestCaseRequest cl testCase
      in (post posted req, posted @ [req]))"

definition addToSuiteRequest :: "client \<Rightarrow> int \<Rightarrow> http_request" where
  "addToSuiteRequest cl workItemId =
     \<lparr>url = toText (azureDevOpsOrgUrl (cfg cl)) @ toText (azureDevOpsProject (cfg cl)) @
             ''/_apis/test/Plans/'' @ toText (azureDevOpsPlanId (cfg cl)) @
             ''/Suites/'' @ toText (azureDevOpsSuiteId (cfg cl)) @
             ''/TestCases/'' @ showInt workItemId @ ''?api-version=7.0'',
      payload = EmptyObject,
      headers = [(''Authorization'', ''Basic '' @ auth cl), (''Accept'', ''application/json'')]\<rparr>"

definition addToSuite ::
  "client \<Rightarrow> axios \<Rightarrow> http_request list \<Rightarrow> int \<Rightarrow> (error + unit) \<times> http_request list" where
  "addToSuite cl post posted workItemId =
     (let req = addToSuiteRequest cl workItemId
      in (case post posted req of Inl e \<Rightarrow> Inl e | Inr _ \<Rightarrow> Inr (), posted @ [req]))"

section \<open>The synchronisation loop and the run\<close>

record failed_entry =
  id_failed :: "string option"
  title_failed :: "string option"
  reason :: string

text \<open>The variables of the loop, and the requests posted so far (the run's effect on
  the remote system). Console output is not part of the model.\<close>

record loop_state =
  successCount :: nat
  failedCount :: nat
  failedTestCases :: "failed_entry list"
  requests :: "http_request list"

definition recordFailure :: "loop_state \<Rightarrow> test_case \<Rightarrow> string \<Rightarrow> loop_state" where
  "recordFailure st tc r =
     st\<lparr>failedCount := failedCount st + 1,
        failedTestCases :=
          failedTestCases st @ [\<lparr>id_failed = id_tc tc, title_failed = title tc, reason = r\<rparr>]\<rparr>"

text \<open>The validation at the head of the loop body.\<close>

definition invalidTestCase :: "test_case \<Rightarrow> bool" where
  "invalidTestCase tc =
     (\<not> truthy (title tc) \<or>
      (case steps tc of None \<Rightarrow> True | Some ss \<Rightarrow> length ss = 0))"

text \<open>One iteration of \<^verbatim>\<open>for (const tc of payload.testCases)\<close>.\<close>

definition loopBody :: "client \<Rightarrow> axios \<Rightarrow> loop_state \<Rightarrow> test_case \<Rightarrow> loop_state" where
  "loopBody cl post st tc =
     (if invalidTestCase tc then recordFailure st tc ''Missing title or steps''
      else
        (let testCaseBody = buildTestCaseBody tc in
         case createTestCase cl post (requests st) testCaseBody of
           (Inl e, posted1) \<Rightarrow> recordFailure (st\<lparr>requests := posted1\<rparr>) tc (message e)
         | (Inr workItemId, posted1) \<Rightarrow>
             (case addToSuite cl post posted1 workItemId of
                (Inl e, posted2) \<Rightarrow> recordFailure (st\<lparr>requests := posted2\<rparr>) tc (message e)
              | (Inr _, posted2) \<Rightarrow>
                  st\<lparr>successCount := successCount st + 1, requests := posted2\<rparr>)))"

fun mainLoop :: "client \<Rightarrow> axios \<Rightarrow> loop_state \<Rightarrow> test_case list \<Rightarrow> loop_state" where
  "mainLoop cl post st [] = st"
| "mainLoop cl post st (tc # rest) = mainLoop cl post (loopBody cl post st tc) rest"

definition initialState :: loop_state where
  "initialState = \<lparr>successCount = 0, failedCount = 0, failedTestCases = [], requests = []\<rparr>"

text \<open>The \<^verbatim>\<open>process.exit\<close> at the end of a run that reached the summary.\<close>

definition exitCodeOf :: "loop_state \<Rightarrow> nat" where
  "exitCodeOf st = (if failedCount st > 0 then 1 else 0)"

text \<open>The loop, the summary and the exit, for a loaded list of test cases.\<close>

definition syncRun :: "client \<Rightarrow> axios \<Rightarrow> test_case list \<Rightarrow> nat \<times> loop_state" where
  "syncRun cl post tcs = (let st = mainLoop cl post initialState tcs in (exitCodeOf st, st))"

text \<open>
  The whole script. Everything outside it is gathered in a record: the libraries of
  \<^verbatim>\<open>initialize\<close>, the environment variable \<^verbatim>\<open>TESTCASE_JSON\<close>, the bundled file's path,
  reading and parsing a file (\<open>None\<close> in \<open>testCases\<close> when the field is not an array) and
  the remote system. The result is the exit code and, when the loop ran, its final state.
\<close>

record payload_json =
  testCases :: "test_case list option"

record world =
  findupConfig :: "string option"
  nconfLoad :: "string \<Rightarrow> error + (string \<Rightarrow> conf_value)"
  getSecret :: "conf_value \<Rightarrow> conf_value \<Rightarrow> error + string option"
  base64 :: "string \<Rightarrow> string"
  envTestcaseJson :: "string option"
  bundledJson :: string
  readJson :: "string \<Rightarrow> error + payload_json"
  axiosPost :: axios

definition main :: "world \<Rightarrow> nat \<times> loop_state option" where
  "main w =
     (case initialize (findupConfig w) (nconfLoad w) (getSecret w) (base64 w) of
        Inl e \<Rightarrow> (1, None)
      | Inr adoClient \<Rightarrow>
          (let jsonFile = (if truthy (envTestcaseJson w) then orEmpty (envTestcaseJson w)
                           else bundledJson w) in
           case readJson w jsonFile of
             Inl e \<Rightarrow> (1, None)
           | Inr pl \<Rightarrow>
               (case testCases pl of
                  None \<Rightarrow> (1, None)
                | Some tcs \<Rightarrow>
                    (let (code, st) = syncRun adoClient (axiosPost w) tcs in (code, Some st)))))"

section \<open>The retry helper\<close>

text \<open>
  \<^verbatim>\<open>retryAction\<close> of the test helpers. The action is an effect, so it is given by the
  result of each of its invocations: \<open>act k\<close> is what the invocation in attempt \<open>k\<close> does,
  throw or return. The function returns what the helper returns or throws (it throws
  \<^verbatim>\<open>lastError\<close>, which is \<^verbatim>\<open>undefined\<close>, here \<open>None\<close>, when no attempt was made) and the
  trace of what it did: invocations of the action and waits, with their delays.
\<close>

datatype retry_event = Invoke nat | Wait int

function retryLoop ::
  "(nat \<Rightarrow> error + 'a) \<Rightarrow> int \<Rightarrow> int \<Rightarrow> nat \<Rightarrow> error option \<Rightarrow> retry_event list \<Rightarrow>
   (error option + 'a) \<times> retry_event list" where
  "retryLoop act maxRetries initialDelay attempt lastError tr =
     (if int attempt < maxRetries then
        (case act attempt of
           Inr v \<Rightarrow> (Inr v, tr @ [Invoke attempt])
         | Inl e \<Rightarrow>
             (if int attempt < maxRetries - 1
              then retryLoop act maxRetries initialDelay (attempt + 1) (Some e)
                     (tr @ [Invoke attempt, Wait (initialDelay * 2 ^ attempt)])
              else retryLoop act maxRetries initialDelay (attempt + 1) (Some e)
                     (tr @ [Invoke attempt])))
      else (Inl lastError, tr))"
  by pat_completeness auto
termination
  by (relation "measure (\<lambda>(act, maxRetries, initialDelay, attempt, lastError, tr).
        nat (maxRetries - int attempt))") auto

declare retryLoop.simps [simp del]

definition retryAction ::
  "(nat \<Rightarrow> error + 'a) \<Rightarrow> int \<Rightarrow> int \<Rightarrow> (error option + 'a) \<times> retry_event list" where
  "retryAction act maxRetries initialDelay = retryLoop act maxRetries initialDelay 0 None []"

section \<open>Notions the statements use\<close>

subsection \<open>Well-formed markup\<close>

text \<open>
  A scanner for markup fragments, one character at a time. It keeps the names of the open
  elements on a stack and checks that
  \<^item> every character is one XML 1.0 allows: tab, line feed, carriage return, or a character
    from U+0020 on (the strings of this theory hold characters below U+0100, so the
    excluded ones are U+0000 to U+0008, U+000B, U+000C and U+000E to U+001F);
  \<^item> tags are nested and closed by name, and a start tag holds attributes of the form
    \<open>name="value"\<close> with distinct names and no \<^verbatim>\<open><\<close> or \<^verbatim>\<open>&\<close> in a value;
  \<^item> character data holds no \<^verbatim>\<open><\<close>, an \<^verbatim>\<open>&\<close> only as the start of one of the five
    predefined entity references, and never the sequence \<^verbatim>\<open>]]>\<close> (the mode \<open>Content k\<close>
    counts the \<^verbatim>\<open>]\<close> that end the data read so far).
  It is stricter than XML where it is simpler to be: comments, character references,
  CDATA sections and processing instructions are refused.
\<close>

definition isXmlChar :: "char \<Rightarrow> bool" where
  "isXmlChar c = (let n = (of_char c :: nat) in n = 9 \<or> n = 10 \<or> n = 13 \<or> 32 \<le> n)"

definition isNameStartChar :: "char \<Rightarrow> bool" where
  "isNameStartChar c = (c \<in> set ''abcdefghijklmnopqrstuvwxyzABCDEFGHIJKLMNOPQRSTUVWXYZ_:'')"

definition isNameChar :: "char \<Rightarrow> bool" where
  "isNameChar c = (isNameStartChar c \<or> c \<in> set ''0123456789-.'')"

definition isSpaceChar :: "char \<Rightarrow> bool" where
  "isSpaceChar c = (c = CHR '' '' \<or> c = CHR 0x09 \<or> c = CHR 0x0A \<or> c = CHR 0x0D)"

datatype xml_mode =
    Content nat
  | Reference string
  | TagStart
  | StartName string
  | EndName string
  | InTag string "string list"
  | AttrName string "string list" string
  | AttrEq string "string list"
  | AttrValue string "string list" char
  | AfterValue string "string list"
  | EmptyTagEnd
  | Malformed

type_synonym xml_state = "xml_mode \<times> string list"

text \<open>One allowed character, by the mode the scanner is in.\<close>

fun xmlStepLegal :: "xml_state \<Rightarrow> char \<Rightarrow> xml_state" where
  "xmlStepLegal (Content k, stack) c =
     (if c = CHR ''<'' then (TagStart, stack)
      else if c = CHR ''&'' then (Reference [], stack)
      else if c = CHR '']'' then (Content (Suc k), stack)
      else if c = CHR ''>'' then (if 2 \<le> k then (Malformed, stack) else (Content 0, stack))
      else (Content 0, stack))"
| "xmlStepLegal (Reference n, stack) c =
     (if c = CHR '';'' then
        (if n \<in> set [''amp'', ''lt'', ''gt'', ''quot'', ''apos''] then (Content 0, stack)
         else (Malformed, stack))
      else if isNameChar c then (Reference (n @ [c]), stack)
      else (Malformed, stack))"
| "xmlStepLegal (TagStart, stack) c =
     (if c = CHR ''/'' then (EndName [], stack)
      else if isNameStartChar c then (StartName [c], stack)
      else (Malformed, stack))"
| "xmlStepLegal (StartName n, stack) c =
     (if isNameChar c then (StartName (n @ [c]), stack)
      else if isSpaceChar c then (InTag n [], stack)
      else if c = CHR ''>'' then (Content 0, n # stack)
      else if c = CHR ''/'' then (EmptyTagEnd, stack)
      else (Malformed, stack))"
| "xmlStepLegal (EndName n, stack) c =
     (if isNameChar c then (EndName (n @ [c]), stack)
      else if c = CHR ''>'' then
        (case stack of
           [] \<Rightarrow> (Malformed, stack)
         | opened # rest \<Rightarrow> if opened = n then (Content 0, rest) else (Malformed, stack))
      else (Malformed, stack))"
| "xmlStepLegal (InTag n seen, stack) c =
     (if isSpaceChar c then (InTag n seen, stack)
      else if isNameStartChar c then (AttrName n seen [c], stack)
      else if c = CHR ''>'' then (Content 0, n # stack)
      else if c = CHR ''/'' then (EmptyTagEnd, stack)
      else (Malformed, stack))"
| "xmlStepLegal (AttrName n seen a, stack) c =
     (if isNameChar c then (AttrName n seen (a @ [c]), stack)
      else if c = CHR ''='' then
        (if a \<in> set seen then (Malformed, stack) else (AttrEq n (a # seen), stack))
      else (Malformed, stack))"
| "xmlStepLegal (AttrEq n seen, stack) c =
     (if c = CHR 0x22 \<or> c = CHR 0x27 then (AttrValue n seen c, stack)
      else (Malformed, stack))"
| "xmlStepLegal (AttrValue n seen q, stack) c =
     (if c = q then (AfterValue n seen, stack)
      else if c = CHR ''<'' \<or> c = CHR ''&'' then (Malformed, stack)
      else (AttrValue n seen q, stack))"
| "xmlStepLegal (AfterValue n seen, stack) c =
     (if isSpaceChar c then (InTag n seen, stack)
      else if c = CHR ''>'' then (Content 0, n # stack)
      else if c = CHR ''/'' then (EmptyTagEnd, stack)
      else (Malformed, stack))"
| "xmlStepLegal (EmptyTagEnd, stack) c =
     (if c = CHR ''>'' then (Content 0, stack) else (Malformed, stack))"
| "xmlStepLegal (Malformed, stack) c = (Malformed, stack)"

definition xmlStep :: "xml_state \<Rightarrow> char \<Rightarrow> xml_state" where
  "xmlStep st c = (if isXmlChar c then xmlStepLegal st c else (Malformed, snd st))"

definition xmlScan :: "xml_state \<Rightarrow> string \<Rightarrow> xml_state" where
  "xmlScan st s = foldl xmlStep st s"

text \<open>The scan ends well in character data with every element closed.\<close>

fun accepting :: "xml_state \<Rightarrow> bool" where
  "accepting (Content k, stack) = (stack = [])"
| "accepting (m, stack) = False"

definition wellFormedFragment :: "string \<Rightarrow> bool" where
  "wellFormedFragment s = accepting (xmlScan (Content 0, []) s)"

text \<open>The text of a step field holds allowed characters only (an absent field has no text).\<close>

definition legalText :: "string option \<Rightarrow> bool" where
  "legalText v = (case v of None \<Rightarrow> True | Some s \<Rightarrow> list_all isXmlChar s)"

definition legalStep :: "step_def \<Rightarrow> bool" where
  "legalStep s = (legalText (action s) \<and> legalText (expected s))"

subsection \<open>The tag string as the specification words it\<close>

text \<open>The explicit tags, then \<open>LogicalID:<id>\<close> when the id is present, then
  \<open>Category:<category>\<close> when the category is present, joined with \<open>; \<close>.\<close>

definition tagsSpec :: "test_case \<Rightarrow> string" where
  "tagsSpec tc =
     join ''; ''
       ((case tags tc of None \<Rightarrow> [] | Some ts \<Rightarrow> ts) @
        (case id_tc tc of None \<Rightarrow> [] | Some i \<Rightarrow> [''LogicalID:'' @ i]) @
        (case category tc of None \<Rightarrow> [] | Some c \<Rightarrow> [''Category:'' @ c]))"

subsection \<open>Outcomes of the loop, configuration keys, traces of the retry helper\<close>

definition keyOfEntry :: "failed_entry \<Rightarrow> string option \<times> string option" where
  "keyOfEntry e = (id_failed e, title_failed e)"

definition keyOfTestCase :: "test_case \<Rightarrow> string option \<times> string option" where
  "keyOfTestCase tc = (id_tc tc, title tc)"

text \<open>A required field as the specification words its absence: missing or empty.\<close>

definition missingOrEmpty :: "conf_value \<Rightarrow> bool" where
  "missingOrEmpty v = (v = CUndefined \<or> v = CString [])"

definition requiredKeys :: "string list" where
  "requiredKeys =
     [''keyVaultUrl'', ''azureDevOpsPatSecretName'', ''azureDevOpsOrgUrl'',
      ''azureDevOpsProject'', ''azureDevOpsPlanId'', ''azureDevOpsSuiteId'']"

text \<open>The trace of the failed attempts \<open>a, \<dots>, k - 1\<close>, each followed by its wait.\<close>

definition failedAttempts :: "int \<Rightarrow> nat \<Rightarrow> nat \<Rightarrow> retry_event list" where
  "failedAttempts initialDelay a k =
     concat (map (\<lambda>j. [Invoke j, Wait (initialDelay * 2 ^ j)]) [a..<k])"

definition invocations :: "retry_event list \<Rightarrow> nat" where
  "invocations tr = length (filter (\<lambda>ev. case ev of Invoke _ \<Rightarrow> True | Wait _ \<Rightarrow> False) tr)"

subsection \<open>Example inputs\<close>

definition exampleConfig :: config where
  "exampleConfig =
     \<lparr>keyVaultUrl = CString ''https://vault.example/'',
      azureDevOpsPatSecretName = CString ''ado-pat'',
      azureDevOpsOrgUrl = CString ''https://dev.azure.com/org/'',
      azureDevOpsProject = CString ''Xbox'',
      azureDevOpsPlanId = CNumber 22228689,
      azureDevOpsSuiteId = CNumber 60819220\<rparr>"

text \<open>What \<^verbatim>\<open>nconf.get\<close> returns for a complete configuration file.\<close>

definition exampleGet :: "string \<Rightarrow> conf_value" where
  "exampleGet k =
     (case map_of
        [(''keyVaultUrl'', CString ''https://vault.example/''),
         (''azureDevOpsPatSecretName'', CString ''ado-pat''),
         (''azureDevOpsOrgUrl'', CString ''https://dev.azure.com/org/''),
         (''azureDevOpsProject'', CString ''Xbox''),
         (''azureDevOpsPlanId'', CNumber 22228689),
         (''azureDevOpsSuiteId'', CNumber 60819220)] k of
        None \<Rightarrow> CUndefined
      | Some v \<Rightarrow> v)"

definition exampleNconf :: "string \<Rightarrow> error + (string \<Rightarrow> conf_value)" where
  "exampleNconf p = Inr exampleGet"

text \<open>The same file with an empty suite identifier, with the plan identifier 0, and a
  file that is found but is not JSON.\<close>

definition emptySuiteNconf :: "string \<Rightarrow> error + (string \<Rightarrow> conf_value)" where
  "emptySuiteNconf p = Inr (exampleGet(''azureDevOpsSuiteId'' := CString []))"

definition zeroPlanGet :: "string \<Rightarrow> conf_value" where
  "zeroPlanGet = exampleGet(''azureDevOpsPlanId'' := CNumber 0)"

definition zeroPlanNconf :: "string \<Rightarrow> error + (string \<Rightarrow> conf_value)" where
  "zeroPlanNconf p = Inr zeroPlanGet"

definition unparsableNconf :: "string \<Rightarrow> error + (string \<Rightarrow> conf_value)" where
  "unparsableNconf p = Inl (Error ''Error parsing your configuration file'')"

definition exampleClient :: client where
  "exampleClient = setupAuth (\<lambda>s. ''OnNlY3JldA=='') exampleConfig ''secret''"

definition tcValid :: test_case where
  "tcValid =
     \<lparr>id_tc = Some ''TC-001'', title = Some ''Search returns results'', priority = Some 1,
      category = Some ''Search'', tags = Some [''smoke''],
      steps = Some [\<lparr>action = Some ''Type <query> & press Enter'',
                     expected = Some ''Results > 0''\<rparr>]\<rparr>"

definition tcNoSteps :: test_case where
  "tcNoSteps =
     \<lparr>id_tc = Some ''TC-002'', title = Some ''Search box is visible'', priority = Some 2,
      category = Some ''Search'', tags = Some [], steps = Some []\<rparr>"

definition tcThird :: test_case where
  "tcThird =
     \<lparr>id_tc = Some ''TC-003'', title = Some ''Search shows suggestions'', priority = Some 0,
      category = None, tags = None,
      steps = Some [\<lparr>action = Some ''Type xb'', expected = None\<rparr>]\<rparr>"

text \<open>A step whose action ends in a form feed.\<close>

definition stepFormFeed :: step_def where
  "stepFormFeed = \<lparr>action = Some (''a & b'' @ [CHR 0x0C]), expected = Some ''ok''\<rparr>"

definition tcEmptyTag :: test_case where
  "tcEmptyTag =
     \<lparr>id_tc = Some ''TC1'', title = Some ''Search'', priority = Some 1,
      category = Some ''UI'', tags = Some [''a'', [], ''b''],
      steps = Some [\<lparr>action = Some ''open'', expected = Some ''shown''\<rparr>]\<rparr>"

text \<open>A remote system that accepts every post, and one that accepts two posts and
  fails every later one.\<close>

definition remoteAccepts :: axios where
  "remoteAccepts posted req = Inr 4711"

definition remoteFailsAfterTwo :: axios where
  "remoteFailsAfterTwo posted req =
     (if length posted < 2 then Inr 4711
      else Inl (Error ''Request failed with status code 500''))"


text \<open>A whole world for the script: the configuration file is found and complete, the
  secret is there, the bundled file holds a valid definition and one with no steps, and
  the remote system accepts every post.\<close>

definition exampleWorld :: world where
  "exampleWorld =
     \<lparr>findupConfig = Some ''/repo/config.json'',
      nconfLoad = exampleNconf,
      getSecret = (\<lambda>vault name. Inr (Some ''secret'')),
      base64 = (\<lambda>s. ''OnNlY3JldA==''),
      envTestcaseJson = None,
      bundledJson = ''/repo/tests/TestData/xboxsearchbartestcases.json'',
      readJson = (\<lambda>file. Inr \<lparr>testCases = Some [tcValid, tcNoSteps]\<rparr>),
      axiosPost = remoteAccepts\<rparr>"

text \<open>The same world without a configuration file.\<close>

definition noConfigWorld :: world where
  "noConfigWorld = exampleWorld\<lparr>findupConfig := None\<rparr>"

text \<open>Two actions for the retry helper: one that fails in its first two invocations
  and then returns, and one that fails in every invocation.\<close>

definition failTwiceThenReturn :: "nat \<Rightarrow> error + nat" where
  "failTwiceThenReturn k = (if k < 2 then Inl (Error ''timeout'') else Inr 7)"

definition alwaysFail :: "nat \<Rightarrow> error + nat" where
  "alwaysFail k = Inl (Error (''attempt '' @ showNat k))"

section \<open>Claims about the escaper and the steps markup\<close>

lemma replaceAll_Nil: "replaceAll c r [] = []"
  by (simp add: replaceAll_def)

lemma replaceAll_Cons: "replaceAll c r (x # xs) = (if x = c then r else [x]) @ replaceAll c r xs"
  by (simp add: replaceAll_def)

lemma replaceAll_append: "replaceAll c r (xs @ ys) = replaceAll c r xs @ replaceAll c r ys"
  by (simp add: replaceAll_def)

text \<open>The three passes on one character: the entity a pass inserts holds no character a
  later pass replaces.\<close>

lemma three_passes_one_char:
  "replaceAll CHR ''>'' ''&gt;'' (replaceAll CHR ''<'' ''&lt;'' (replaceAll CHR ''&'' ''&amp;'' [c]))
   = (if c = CHR ''&'' then ''&amp;''
      else if c = CHR ''<'' then ''&lt;''
      else if c = CHR ''>'' then ''&gt;''
      else [c])"
  by (simp add: replaceAll_Cons replaceAll_Nil)

lemma xmlEscape_Cons:
  "xmlEscape (Some (c # s)) =
     (if c = CHR ''&'' then ''&amp;''
      else if c = CHR ''<'' then ''&lt;''
      else if c = CHR ''>'' then ''&gt;''
      else [c]) @ xmlEscape (Some s)"
proof -
  have "xmlEscape (Some (c # s)) =
        replaceAll CHR ''>'' ''&gt;''
          (replaceAll CHR ''<'' ''&lt;'' (replaceAll CHR ''&'' ''&amp;'' ([c] @ s)))"
    by (simp add: xmlEscape_def)
  then show ?thesis
    unfolding replaceAll_append three_passes_one_char by (simp add: xmlEscape_def)
qed

lemma xmlEscape_Nil: "xmlEscape (Some []) = []"
  by (simp add: xmlEscape_def replaceAll_Nil)

lemma xmlEscape_None: "xmlEscape None = []"
  by (simp add: xmlEscape_def replaceAll_Nil)

lemma xmlEscape_Some:
  "xmlEscape (Some s) =
     concat (map (\<lambda>c. if c = CHR ''&'' then ''&amp;''
                      else if c = CHR ''<'' then ''&lt;''
                      else if c = CHR ''>'' then ''&gt;''
                      else [c]) s)"
  by (induction s) (simp_all only: xmlEscape_Nil xmlEscape_Cons list.map concat.simps)

lemma xmlScan_append: "xmlScan st (a @ b) = xmlScan (xmlScan st a) b"
  by (simp add: xmlScan_def)

lemma xmlScan_Nil: "xmlScan st [] = st"
  by (simp add: xmlScan_def)

lemma xmlScan_Cons: "xmlScan st (c # s) = xmlScan (xmlStep st c) s"
  by (simp add: xmlScan_def)

lemma scan_then: "xmlScan st a = st' \<Longrightarrow> xmlScan st (a @ rest) = xmlScan st' rest"
  by (simp add: xmlScan_append)

subsection \<open>Allowed text leaves the scanner in character data\<close>

text \<open>One escaped character, from character data: the scanner is in character data
  again, whatever the number of \<^verbatim>\<open>]\<close> before, since a \<^verbatim>\<open>>\<close> is never copied.\<close>

lemma xmlScan_escaped_char:
  assumes "isXmlChar c"
  shows "\<exists>k'. xmlScan (Content k, stack)
           (if c = CHR ''&'' then ''&amp;''
            else if c = CHR ''<'' then ''&lt;''
            else if c = CHR ''>'' then ''&gt;''
            else [c]) = (Content k', stack)"
proof -
  consider (amp) "c = CHR ''&''" | (lt) "c = CHR ''<''" | (gt) "c = CHR ''>''"
    | (other) "c \<noteq> CHR ''&''" "c \<noteq> CHR ''<''" "c \<noteq> CHR ''>''"
    by blast
  then show ?thesis
  proof cases
    case amp
    then show ?thesis
      by (simp add: xmlScan_def xmlStep_def isXmlChar_def isNameChar_def isNameStartChar_def)
  next
    case lt
    then show ?thesis
      by (simp add: xmlScan_def xmlStep_def isXmlChar_def isNameChar_def isNameStartChar_def)
  next
    case gt
    then show ?thesis
      by (simp add: xmlScan_def xmlStep_def isXmlChar_def isNameChar_def isNameStartChar_def)
  next
    case other
    with assms show ?thesis
      by (simp add: xmlScan_def xmlStep_def)
  qed
qed

lemma xmlScan_escaped:
  "list_all isXmlChar s \<Longrightarrow>
   \<exists>k'. xmlScan (Content k, stack) (xmlEscape (Some s)) = (Content k', stack)"
proof (induction s arbitrary: k)
  case Nil
  show ?case by (simp add: xmlEscape_Nil xmlScan_Nil)
next
  case (Cons c s)
  then have "isXmlChar c" and rest: "list_all isXmlChar s" by simp_all
  from xmlScan_escaped_char [OF this(1), of k stack] obtain k1 where
    "xmlScan (Content k, stack)
       (if c = CHR ''&'' then ''&amp;''
        else if c = CHR ''<'' then ''&lt;''
        else if c = CHR ''>'' then ''&gt;''
        else [c]) = (Content k1, stack)"
    by blast
  then have "xmlScan (Content k, stack) (xmlEscape (Some (c # s)))
             = xmlScan (Content k1, stack) (xmlEscape (Some s))"
    unfolding xmlEscape_Cons by (rule scan_then)
  with Cons.IH [OF rest, of k1] show ?case by simp
qed

lemma xmlScan_xmlEscape:
  "legalText v \<Longrightarrow> \<exists>k'. xmlScan (Content k, stack) (xmlEscape v) = (Content k', stack)"
  by (cases v) (simp_all add: legalText_def xmlEscape_None xmlScan_Nil xmlScan_escaped)

lemma digitChar_digit: "d < 10 \<Longrightarrow> digitChar d \<in> set ''0123456789''"
  unfolding digitChar_def by (rule nth_mem) simp

lemma xmlStep_digit:
  "c \<in> set ''0123456789'' \<Longrightarrow>
   xmlStep (AttrValue n seen (CHR 0x22), stack) c = (AttrValue n seen (CHR 0x22), stack)"
  by (auto simp add: xmlStep_def isXmlChar_def)

text \<open>A rendered number inside a quoted attribute value leaves the scanner there.\<close>

lemma xmlScan_showNat:
  "xmlScan (AttrValue n seen (CHR 0x22), stack) (showNat k) = (AttrValue n seen (CHR 0x22), stack)"
proof (induction k rule: showNat.induct)
  case (1 k)
  show ?case
  proof (cases "k < 10")
    case True
    then have "showNat k = [digitChar k]" by (simp add: showNat.simps)
    then show ?thesis
      using xmlStep_digit [OF digitChar_digit [OF True]] by (simp add: xmlScan_def)
  next
    case False
    then have unfold: "showNat k = showNat (k div 10) @ [digitChar (k mod 10)]"
      by (subst showNat.simps) simp
    have "k mod 10 < 10" by simp
    from xmlStep_digit [OF digitChar_digit [OF this]] "1.IH" [OF False]
    show ?thesis unfolding unfold xmlScan_append by (simp add: xmlScan_def)
  qed
qed

text \<open>The fixed pieces of the template literals.\<close>

lemma scan_step_open:
  "xmlScan (Content k, stack) (''<step id='' @ dq) = (AttrValue ''step'' [''id''] (CHR 0x22), stack)"
  by (simp add: xmlScan_def xmlStep_def isXmlChar_def dq_def isNameStartChar_def isNameChar_def
      isSpaceChar_def)

lemma scan_step_type:
  "xmlScan (AttrValue ''step'' [''id''] (CHR 0x22), stack)
     (dq @ '' type='' @ dq @ ''ActionStep'' @ dq @ ''>'' @ nl)
   = (Content 0, ''step'' # stack)"
  by (simp add: xmlScan_def xmlStep_def isXmlChar_def dq_def nl_def isNameStartChar_def
      isNameChar_def isSpaceChar_def)

lemma scan_param_open:
  "xmlScan (Content k, stack) (''  <parameterizedString isformatted='' @ dq @ ''true'' @ dq @ ''>'')
    = (Content 0, ''parameterizedString'' # stack)"
  by (simp add: xmlScan_def xmlStep_def isXmlChar_def dq_def isNameStartChar_def isNameChar_def
      isSpaceChar_def)

lemma scan_param_close:
  "xmlScan (Content k, ''parameterizedString'' # stack) (''</parameterizedString>'' @ nl)
    = (Content 0, stack)"
  by (simp add: xmlScan_def xmlStep_def isXmlChar_def nl_def isNameStartChar_def isNameChar_def
      isSpaceChar_def)

lemma scan_step_close:
  "xmlScan (Content k, ''step'' # stack) ''</step>'' = (Content 0, stack)"
  by (simp add: xmlScan_def xmlStep_def isXmlChar_def isNameStartChar_def isNameChar_def
      isSpaceChar_def)

lemma scan_steps_open:
  "xmlScan (Content k, stack) (''<steps id='' @ dq @ ''0'' @ dq @ ''>'')
   = (Content 0, ''steps'' # stack)"
  by (simp add: xmlScan_def xmlStep_def isXmlChar_def dq_def isNameStartChar_def isNameChar_def
      isSpaceChar_def)

lemma scan_steps_close:
  "xmlScan (Content k, ''steps'' # stack) ''</steps>'' = (Content 0, stack)"
  by (simp add: xmlScan_def xmlStep_def isXmlChar_def isNameStartChar_def isNameChar_def
      isSpaceChar_def)

lemma stepXml_parts:
  "stepXml s i =
     (''<step id='' @ dq) @ showNat (i + 1) @
     (dq @ '' type='' @ dq @ ''ActionStep'' @ dq @ ''>'' @ nl) @
     (''  <parameterizedString isformatted='' @ dq @ ''true'' @ dq @ ''>'') @ xmlEscape (action s) @
     (''</parameterizedString>'' @ nl) @
     (''  <parameterizedString isformatted='' @ dq @ ''true'' @ dq @ ''>'') @ xmlEscape (expected s) @
     (''</parameterizedString>'' @ nl) @
     ''</step>''"
  by (simp add: stepXml_def)

lemma xmlScan_stepXml:
  assumes "legalStep s"
  shows "xmlScan (Content k, stack) (stepXml s i) = (Content 0, stack)"
proof -
  let ?param = "''  <parameterizedString isformatted='' @ dq @ ''true'' @ dq @ ''>''"
  let ?close = "''</parameterizedString>'' @ nl"
  let ?r6 = "?close @ ''</step>''"
  let ?r5 = "?param @ xmlEscape (expected s) @ ?r6"
  let ?r4 = "?close @ ?r5"
  let ?r3 = "?param @ xmlEscape (action s) @ ?r4"
  let ?r2 = "(dq @ '' type='' @ dq @ ''ActionStep'' @ dq @ ''>'' @ nl) @ ?r3"
  from assms have legal: "legalText (action s)" "legalText (expected s)"
    by (simp_all add: legalStep_def)
  from xmlScan_xmlEscape [OF legal(1)] obtain ka where
    action: "xmlScan (Content 0, ''parameterizedString'' # ''step'' # stack) (xmlEscape (action s))
             = (Content ka, ''parameterizedString'' # ''step'' # stack)"
    by blast
  from xmlScan_xmlEscape [OF legal(2)] obtain ke where
    expected: "xmlScan (Content 0, ''parameterizedString'' # ''step'' # stack)
                 (xmlEscape (expected s))
               = (Content ke, ''parameterizedString'' # ''step'' # stack)"
    by blast
  have "xmlScan (Content k, stack) (stepXml s i)
        = xmlScan (AttrValue ''step'' [''id''] (CHR 0x22), stack) (showNat (i + 1) @ ?r2)"
    unfolding stepXml_parts by (rule scan_then [OF scan_step_open])
  also have "\<dots> = xmlScan (AttrValue ''step'' [''id''] (CHR 0x22), stack) ?r2"
    by (rule scan_then [OF xmlScan_showNat])
  also have "\<dots> = xmlScan (Content 0, ''step'' # stack) ?r3"
    by (rule scan_then [OF scan_step_type])
  also have "\<dots> = xmlScan (Content 0, ''parameterizedString'' # ''step'' # stack)
                      (xmlEscape (action s) @ ?r4)"
    by (rule scan_then [OF scan_param_open])
  also have "\<dots> = xmlScan (Content ka, ''parameterizedString'' # ''step'' # stack) ?r4"
    by (rule scan_then [OF action])
  also have "\<dots> = xmlScan (Content 0, ''step'' # stack) ?r5"
    by (rule scan_then [OF scan_param_close])
  also have "\<dots> = xmlScan (Content 0, ''parameterizedString'' # ''step'' # stack)
                      (xmlEscape (expected s) @ ?r6)"
    by (rule scan_then [OF scan_param_open])
  also have "\<dots> = xmlScan (Content ke, ''parameterizedString'' # ''step'' # stack) ?r6"
    by (rule scan_then [OF expected])
  also have "\<dots> = xmlScan (Content 0, ''step'' # stack) ''</step>''"
    by (rule scan_then [OF scan_param_close])
  also have "\<dots> = (Content 0, stack)"
    by (rule scan_step_close)
  finally show ?thesis .
qed

lemma xmlScan_steps:
  "list_all legalStep stps \<Longrightarrow>
   xmlScan (Content 0, stack) (concat (map (\<lambda>(i, s). stepXml s i) (enumerate n stps)))
   = (Content 0, stack)"
  by (induction stps arbitrary: n) (simp_all add: xmlScan_Nil xmlScan_append xmlScan_stepXml)

lemma buildStepsXml_parts:
  "buildStepsXml stps =
     (''<steps id='' @ dq @ ''0'' @ dq @ ''>'') @
     concat (map (\<lambda>(i, s). stepXml s i) (enumerate 0 stps)) @ ''</steps>''"
  by (simp add: buildStepsXml_def)

lemma wellFormed_buildStepsXml:
  assumes "list_all legalStep stps"
  shows "wellFormedFragment (buildStepsXml stps)"
proof -
  let ?inner = "concat (map (\<lambda>(i, s). stepXml s i) (enumerate 0 stps))"
  have "xmlScan (Content 0, []) (buildStepsXml stps)
        = xmlScan (Content 0, [''steps'']) (?inner @ ''</steps>'')"
    unfolding buildStepsXml_parts by (rule scan_then [OF scan_steps_open])
  also have "\<dots> = xmlScan (Content 0, [''steps'']) ''</steps>''"
    by (rule scan_then [OF xmlScan_steps [OF assms]])
  also have "\<dots> = (Content 0, [])"
    by (rule scan_steps_close)
  finally show ?thesis by (simp add: wellFormedFragment_def)
qed

subsection \<open>A character XML excludes makes the markup malformed\<close>

lemma xmlStep_Malformed: "fst st = Malformed \<Longrightarrow> fst (xmlStep st c) = Malformed"
  by (cases st) (simp add: xmlStep_def)

lemma xmlScan_Malformed: "fst st = Malformed \<Longrightarrow> fst (xmlScan st s) = Malformed"
  by (induction s arbitrary: st) (simp_all add: xmlScan_Nil xmlScan_Cons xmlStep_Malformed)

lemma xmlScan_illegal:
  "c \<in> set s \<Longrightarrow> \<not> isXmlChar c \<Longrightarrow> fst (xmlScan st s) = Malformed"
proof (induction s arbitrary: st)
  case Nil
  then show ?case by simp
next
  case (Cons x s)
  show ?case
  proof (cases "isXmlChar x")
    case True
    with Cons.prems have "c \<in> set s" by auto
    from Cons.IH [OF this Cons.prems(2)] show ?thesis by (simp add: xmlScan_Cons)
  next
    case False
    then have "fst (xmlStep st x) = Malformed" by (simp add: xmlStep_def)
    then show ?thesis by (simp add: xmlScan_Cons xmlScan_Malformed)
  qed
qed

lemma illegal_not_wellFormed:
  "c \<in> set s \<Longrightarrow> \<not> isXmlChar c \<Longrightarrow> \<not> wellFormedFragment s"
proof -
  assume "c \<in> set s" "\<not> isXmlChar c"
  then have "fst (xmlScan (Content 0, []) s) = Malformed" by (rule xmlScan_illegal)
  then show ?thesis
    by (cases "xmlScan (Content 0, []) s") (simp add: wellFormedFragment_def)
qed

text \<open>The escaper copies every character XML excludes.\<close>

lemma illegal_copied:
  assumes "c \<in> set s" and "\<not> isXmlChar c"
  shows "c \<in> set (xmlEscape (Some s))"
proof -
  from assms(2) have "c \<noteq> CHR ''&'' \<and> c \<noteq> CHR ''<'' \<and> c \<noteq> CHR ''>''"
    by (auto simp add: isXmlChar_def)
  with assms(1) show ?thesis
    unfolding xmlEscape_Some by (auto intro!: bexI [of _ c])
qed

lemma illegal_text_copied:
  "\<not> legalText v \<Longrightarrow> \<exists>c \<in> set (xmlEscape v). \<not> isXmlChar c"
proof (cases v)
  case None
  assume "\<not> legalText v"
  with None show ?thesis by (simp add: legalText_def)
next
  case (Some s)
  assume "\<not> legalText v"
  with Some obtain c where "c \<in> set s" "\<not> isXmlChar c"
    by (auto simp add: legalText_def list_all_iff)
  with Some illegal_copied show ?thesis by blast
qed

lemma step_text_in_markup:
  assumes "s \<in> set stps"
  shows "set (xmlEscape (action s)) \<union> set (xmlEscape (expected s)) \<subseteq> set (buildStepsXml stps)"
proof -
  from assms obtain i where "(i, s) \<in> set (enumerate 0 stps)"
    by (metis in_set_conv_nth nth_mem length_enumerate nth_enumerate_eq)
  then have "set (stepXml s i) \<subseteq> set (buildStepsXml stps)"
    unfolding buildStepsXml_parts by force
  moreover have "set (xmlEscape (action s)) \<union> set (xmlEscape (expected s)) \<subseteq> set (stepXml s i)"
    unfolding stepXml_parts by auto
  ultimately show ?thesis by blast
qed

lemma illegal_step_not_wellFormed:
  assumes "\<not> list_all legalStep stps"
  shows "\<not> wellFormedFragment (buildStepsXml stps)"
proof -
  from assms obtain s where s: "s \<in> set stps" "\<not> legalStep s"
    by (auto simp add: list_all_iff)
  then have "\<not> legalText (action s) \<or> \<not> legalText (expected s)"
    by (simp add: legalStep_def)
  then obtain c where "c \<in> set (xmlEscape (action s)) \<union> set (xmlEscape (expected s))"
    "\<not> isXmlChar c"
    using illegal_text_copied by blast
  with step_text_in_markup [OF s(1)] have "c \<in> set (buildStepsXml stps)" by blast
  then show ?thesis using \<open>\<not> isXmlChar c\<close> by (rule illegal_not_wellFormed)
qed

text \<open>What the scanner refuses and accepts, on small fragments.\<close>

lemma scanner_examples:
  "\<not> wellFormedFragment ''<p>a < b</p>'' \<and> \<not> wellFormedFragment ''<p>a & b</p>'' \<and>
   \<not> wellFormedFragment ''<p>a</q>'' \<and> \<not> wellFormedFragment ''<p>]]></p>'' \<and>
   \<not> wellFormedFragment (''<p>'' @ [CHR 0x00] @ ''</p>'') \<and>
   \<not> wellFormedFragment (''<p>'' @ [CHR 0x1F] @ ''</p>'') \<and>
   wellFormedFragment (''<p>'' @ [CHR 0x09, CHR 0x0A, CHR 0x0D] @ ''</p>'') \<and>
   wellFormedFragment ''<p>a &lt; b &amp; c ]]&gt;</p>''"
  by (simp add: wellFormedFragment_def xmlScan_def xmlStep_def isXmlChar_def isNameStartChar_def
      isNameChar_def isSpaceChar_def)

text \<open>
  Claim C5, as stated, fails on the code in its second half. The escaper copies every
  character but \<^verbatim>\<open>&\<close>, \<^verbatim>\<open><\<close> and \<^verbatim>\<open>>\<close>, so it copies the control characters XML excludes:
  for the action \<open>a & b\<close> followed by a form feed (U+000C, which \<^verbatim>\<open>JSON.parse\<close> yields
  from \<^verbatim>\<open>\f\<close>), the generated steps markup holds the form feed and is not well-formed.
\<close>

theorem control_character_counterexample:
  "xmlEscape (action stepFormFeed) = ''a &amp; b'' @ [CHR 0x0C] \<and>
   \<not> isXmlChar (CHR 0x0C) \<and>
   \<not> wellFormedFragment (buildStepsXml [stepFormFeed])"
proof (intro conjI)
  show "xmlEscape (action stepFormFeed) = ''a &amp; b'' @ [CHR 0x0C]"
    by (simp add: stepFormFeed_def xmlEscape_Some)
  show "\<not> isXmlChar (CHR 0x0C)"
    by (simp add: isXmlChar_def)
  have "\<not> legalStep stepFormFeed"
    by (simp add: legalStep_def legalText_def stepFormFeed_def isXmlChar_def)
  then show "\<not> wellFormedFragment (buildStepsXml [stepFormFeed])"
    by (intro illegal_step_not_wellFormed) simp
qed

text \<open>
  Claim C5, amended. For every input string the escaper replaces exactly the characters
  \<^verbatim>\<open>&\<close>, \<^verbatim>\<open><\<close> and \<^verbatim>\<open>>\<close>, by \<^verbatim>\<open>&amp;\<close>, \<^verbatim>\<open>&lt;\<close> and \<^verbatim>\<open>&gt;\<close>, and copies every other
  character; the double and the single quote are copied. The generated steps markup is a
  well-formed fragment if and only if every action and expected string (absent ones
  aside) holds only characters XML allows, that is no control character other than tab,
  line feed and carriage return; the characters \<^verbatim>\<open>&\<close>, \<^verbatim>\<open><\<close> and \<^verbatim>\<open>>\<close> in these strings never
  break it.
\<close>

theorem xmlEscape_exact_and_markup_well_formed_iff_legal:
  "xmlEscape (Some s) =
     concat (map (\<lambda>c. if c = CHR ''&'' then ''&amp;''
                      else if c = CHR ''<'' then ''&lt;''
                      else if c = CHR ''>'' then ''&gt;''
                      else [c]) s) \<and>
   xmlEscape None = [] \<and>
   xmlEscape (Some [CHR 0x22, CHR 0x27]) = [CHR 0x22, CHR 0x27] \<and>
   wellFormedFragment (buildStepsXml stps) =
     (\<forall>st \<in> set stps. legalText (action st) \<and> legalText (expected st)) \<and>
   (\<forall>v. legalText v =
      (case v of None \<Rightarrow> True
       | Some t \<Rightarrow> \<forall>c \<in> set t. c = CHR 0x09 \<or> c = CHR 0x0A \<or> c = CHR 0x0D \<or>
                     (32::nat) \<le> of_char c))"
proof (intro conjI allI)
  show "xmlEscape (Some [CHR 0x22, CHR 0x27]) = [CHR 0x22, CHR 0x27]"
    by (simp add: xmlEscape_Some)
next
  have "wellFormedFragment (buildStepsXml stps) = list_all legalStep stps"
    using wellFormed_buildStepsXml [of stps] illegal_step_not_wellFormed [of stps] by blast
  then show "wellFormedFragment (buildStepsXml stps) =
     (\<forall>st \<in> set stps. legalText (action st) \<and> legalText (expected st))"
    by (simp add: list_all_iff legalStep_def)
next
  fix v
  have code: "\<And>c. isXmlChar c =
      (c = CHR 0x09 \<or> c = CHR 0x0A \<or> c = CHR 0x0D \<or> (32::nat) \<le> of_char c)"
  proof -
    fix c
    have "of_char (CHR 0x09) = (9::nat)" "of_char (CHR 0x0A) = (10::nat)"
      "of_char (CHR 0x0D) = (13::nat)"
      by simp_all
    then have "(of_char c = (9::nat)) = (c = CHR 0x09)" "(of_char c = (10::nat)) = (c = CHR 0x0A)"
      "(of_char c = (13::nat)) = (c = CHR 0x0D)"
      by (metis of_char_eq_iff)+
    then show "isXmlChar c =
      (c = CHR 0x09 \<or> c = CHR 0x0A \<or> c = CHR 0x0D \<or> (32::nat) \<le> of_char c)"
      by (simp add: isXmlChar_def Let_def)
  qed
  show "legalText v =
      (case v of None \<Rightarrow> True
       | Some t \<Rightarrow> \<forall>c \<in> set t. c = CHR 0x09 \<or> c = CHR 0x0A \<or> c = CHR 0x0D \<or>
                     (32::nat) \<le> of_char c)"
    by (cases v) (simp_all add: legalText_def list_all_iff code)
qed (rule xmlEscape_Some xmlEscape_None)+

theorem markup_well_formed_witness:
  "wellFormedFragment
     (buildStepsXml
        [\<lparr>action = Some ''Type <query> & press Enter'', expected = Some ''Results > 0 ]]>''\<rparr>,
         \<lparr>action = None, expected = Some [CHR 0x22, CHR 0x27, CHR 0x0A]\<rparr>]) \<and>
   \<not> wellFormedFragment
     (buildStepsXml [\<lparr>action = Some ''ok'', expected = Some [CHR 0x01]\<rparr>])"
proof -
  note good = xmlEscape_exact_and_markup_well_formed_iff_legal
    [of "[]" "[\<lparr>action = Some ''Type <query> & press Enter'', expected = Some ''Results > 0 ]]>''\<rparr>,
         \<lparr>action = None, expected = Some [CHR 0x22, CHR 0x27, CHR 0x0A]\<rparr>]"]
  note bad = xmlEscape_exact_and_markup_well_formed_iff_legal
    [of "[]" "[\<lparr>action = Some ''ok'', expected = Some [CHR 0x01]\<rparr>]"]
  have 1: "\<forall>st \<in> set [\<lparr>action = Some ''Type <query> & press Enter'',
                         expected = Some ''Results > 0 ]]>''\<rparr>,
                       \<lparr>action = None, expected = Some [CHR 0x22, CHR 0x27, CHR 0x0A]\<rparr>].
            legalText (action st) \<and> legalText (expected st)"
    by (simp add: legalText_def isXmlChar_def)
  have 2: "\<not> (\<forall>st \<in> set [\<lparr>action = Some ''ok'', expected = Some [CHR 0x01]\<rparr>].
            legalText (action st) \<and> legalText (expected st))"
    by (simp add: legalText_def isXmlChar_def)
  from good 1 bad 2 show ?thesis by blast
qed

section \<open>Claims about the tag string and the field-patch body\<close>

lemma map_orEmpty_filter_truthy:
  "map orEmpty (filter truthy (map Some ts)) = filter (\<lambda>t. t \<noteq> []) ts"
  by (induction ts) (simp_all add: truthy_def orEmpty_def)

text \<open>
  Claim C6, as the specification words it, fails on the code: \<^verbatim>\<open>filter(Boolean)\<close> drops
  every falsy element of the array, so an explicit tag that is the empty string contributes
  no element, where the claim joins all explicit tags.
\<close>

theorem tags_empty_tag_counterexample:
  "tagsOf tcEmptyTag = ''a; b; LogicalID:TC1; Category:UI'' \<and>
   tagsSpec tcEmptyTag = ''a; ; b; LogicalID:TC1; Category:UI'' \<and>
   tagsOf tcEmptyTag \<noteq> tagsSpec tcEmptyTag"
  by (simp add: tagsOf_def tagsSpec_def tagParts_def tcEmptyTag_def truthy_def orEmpty_def)

text \<open>
  Claim C6, amended. The tag string is the \<open>; \<close>-joined list of the non-empty explicit
  tags in their original order, then \<open>LogicalID:<id>\<close> when the id is present and not
  empty, then \<open>Category:<category>\<close> when the category is present and not empty; an absent
  or empty id or category contributes no element.
\<close>

theorem tagsOf_joins_nonempty_tags:
  "tagsOf tc =
     join ''; ''
       (filter (\<lambda>t. t \<noteq> []) (case tags tc of None \<Rightarrow> [] | Some ts \<Rightarrow> ts) @
        (case id_tc tc of None \<Rightarrow> [] | Some i \<Rightarrow> if i = [] then [] else [''LogicalID:'' @ i]) @
        (case category tc of None \<Rightarrow> [] | Some c \<Rightarrow> if c = [] then [] else [''Category:'' @ c]))"
proof -
  have "map orEmpty (tagParts tc) =
        filter (\<lambda>t. t \<noteq> []) (case tags tc of None \<Rightarrow> [] | Some ts \<Rightarrow> ts) @
        (case id_tc tc of None \<Rightarrow> [] | Some i \<Rightarrow> if i = [] then [] else [''LogicalID:'' @ i]) @
        (case category tc of None \<Rightarrow> [] | Some c \<Rightarrow> if c = [] then [] else [''Category:'' @ c])"
    unfolding tagParts_def filter_append map_append map_orEmpty_filter_truthy
    by (simp add: truthy_def orEmpty_def split: option.splits)
  then show ?thesis by (simp add: tagsOf_def)
qed

text \<open>
  Claim C10. The body built for a definition holds an operation on
  \<open>/fields/Microsoft.VSTS.Common.Priority\<close> if and only if the priority is truthy, that is
  present and not zero. The paths of the body are those of the three base operations
  (title, steps, tags), followed by the priority path exactly in that case, and the
  priority operation then carries the priority.
\<close>

theorem priority_op_iff_truthy:
  "(''/fields/Microsoft.VSTS.Common.Priority'' \<in> set (map path (buildTestCaseBody tc)))
     = truthyNum (priority tc) \<and>
   truthyNum (priority tc) = (\<exists>p. priority tc = Some p \<and> p \<noteq> 0) \<and>
   map path (buildTestCaseBody tc) =
     [''/fields/System.Title'', ''/fields/Microsoft.VSTS.TCM.Steps'', ''/fields/System.Tags''] @
     (if truthyNum (priority tc) then [''/fields/Microsoft.VSTS.Common.Priority''] else []) \<and>
   (\<forall>p. priority tc = Some p \<and> p \<noteq> 0 \<longrightarrow>
      last (buildTestCaseBody tc) =
        \<lparr>op = ''add'', path = ''/fields/Microsoft.VSTS.Common.Priority'', val = VNum p\<rparr>)"
proof (cases "priority tc")
  case None
  then show ?thesis
    by (simp add: buildTestCaseBody_def Let_def truthyNum_def)
next
  case (Some p)
  show ?thesis
  proof (cases "p = 0")
    case True
    with Some show ?thesis
      by (simp add: buildTestCaseBody_def Let_def truthyNum_def)
  next
    case False
    with Some show ?thesis
      by (simp add: buildTestCaseBody_def Let_def truthyNum_def)
  qed
qed

theorem priority_op_witness:
  "map path (buildTestCaseBody tcThird) =
     [''/fields/System.Title'', ''/fields/Microsoft.VSTS.TCM.Steps'', ''/fields/System.Tags''] \<and>
   map path (buildTestCaseBody (tcThird\<lparr>priority := None\<rparr>)) =
     [''/fields/System.Title'', ''/fields/Microsoft.VSTS.TCM.Steps'', ''/fields/System.Tags''] \<and>
   last (buildTestCaseBody tcValid) =
     \<lparr>op = ''add'', path = ''/fields/Microsoft.VSTS.Common.Priority'', val = VNum 1\<rparr>"
  using priority_op_iff_truthy [of tcThird]
    priority_op_iff_truthy [of "tcThird\<lparr>priority := None\<rparr>"]
    priority_op_iff_truthy [of tcValid]
  by (simp add: tcThird_def tcValid_def truthyNum_def)

section \<open>Properties of the synchronisation loop\<close>

lemma mainLoop_append:
  "mainLoop cl post st (xs @ ys) = mainLoop cl post (mainLoop cl post st xs) ys"
  by (induction xs arbitrary: st) simp_all

text \<open>The four ways through one iteration.\<close>

lemma loopBody_invalid:
  "invalidTestCase tc \<Longrightarrow> loopBody cl post st tc = recordFailure st tc ''Missing title or steps''"
  by (simp add: loopBody_def)

lemma loopBody_create_throws:
  "\<not> invalidTestCase tc \<Longrightarrow>
   post (requests st) (createTestCaseRequest cl (buildTestCaseBody tc)) = Inl e \<Longrightarrow>
   loopBody cl post st tc =
     recordFailure (st\<lparr>requests := requests st @ [createTestCaseRequest cl (buildTestCaseBody tc)]\<rparr>)
       tc (message e)"
  by (simp add: loopBody_def createTestCase_def Let_def)

lemma loopBody_add_throws:
  "\<not> invalidTestCase tc \<Longrightarrow>
   post (requests st) (createTestCaseRequest cl (buildTestCaseBody tc)) = Inr w \<Longrightarrow>
   post (requests st @ [createTestCaseRequest cl (buildTestCaseBody tc)])
     (addToSuiteRequest cl w) = Inl e \<Longrightarrow>
   loopBody cl post st tc =
     recordFailure (st\<lparr>requests := requests st @
        [createTestCaseRequest cl (buildTestCaseBody tc), addToSuiteRequest cl w]\<rparr>)
       tc (message e)"
  by (simp add: loopBody_def createTestCase_def addToSuite_def Let_def)

lemma loopBody_success:
  "\<not> invalidTestCase tc \<Longrightarrow>
   post (requests st) (createTestCaseRequest cl (buildTestCaseBody tc)) = Inr w \<Longrightarrow>
   post (requests st @ [createTestCaseRequest cl (buildTestCaseBody tc)])
     (addToSuiteRequest cl w) = Inr r \<Longrightarrow>
   loopBody cl post st tc =
     st\<lparr>successCount := successCount st + 1,
        requests := requests st @
        [createTestCaseRequest cl (buildTestCaseBody tc), addToSuiteRequest cl w]\<rparr>"
  by (simp add: loopBody_def createTestCase_def addToSuite_def Let_def)

lemma loopBody_cases:
  obtains (skip) "invalidTestCase tc"
    "loopBody cl post st tc = recordFailure st tc ''Missing title or steps''"
  | (create_fails) e where "\<not> invalidTestCase tc"
    "post (requests st) (createTestCaseRequest cl (buildTestCaseBody tc)) = Inl e"
    "loopBody cl post st tc =
     recordFailure (st\<lparr>requests := requests st @ [createTestCaseRequest cl (buildTestCaseBody tc)]\<rparr>)
       tc (message e)"
  | (add_fails) w e where "\<not> invalidTestCase tc"
    "post (requests st) (createTestCaseRequest cl (buildTestCaseBody tc)) = Inr w"
    "post (requests st @ [createTestCaseRequest cl (buildTestCaseBody tc)])
       (addToSuiteRequest cl w) = Inl e"
    "loopBody cl post st tc =
     recordFailure (st\<lparr>requests := requests st @
        [createTestCaseRequest cl (buildTestCaseBody tc), addToSuiteRequest cl w]\<rparr>)
       tc (message e)"
  | (success) w r where "\<not> invalidTestCase tc"
    "post (requests st) (createTestCaseRequest cl (buildTestCaseBody tc)) = Inr w"
    "post (requests st @ [createTestCaseRequest cl (buildTestCaseBody tc)])
       (addToSuiteRequest cl w) = Inr r"
    "loopBody cl post st tc =
     st\<lparr>successCount := successCount st + 1,
        requests := requests st @
        [createTestCaseRequest cl (buildTestCaseBody tc), addToSuiteRequest cl w]\<rparr>"
proof (cases "invalidTestCase tc")
  case True
  then show ?thesis using skip loopBody_invalid by blast
next
  case valid: False
  show ?thesis
  proof (cases "post (requests st) (createTestCaseRequest cl (buildTestCaseBody tc))")
    case (Inl e)
    then show ?thesis using create_fails valid loopBody_create_throws by blast
  next
    case (Inr w)
    note created = this
    show ?thesis
    proof (cases "post (requests st @ [createTestCaseRequest cl (buildTestCaseBody tc)])
                    (addToSuiteRequest cl w)")
      case (Inl e)
      then show ?thesis using add_fails valid created loopBody_add_throws by blast
    next
      case (Inr r)
      then show ?thesis using success valid created loopBody_success by blast
    qed
  qed
qed

text \<open>One iteration records exactly one outcome: a success, or one entry of the failed
  list that carries the definition's id and title.\<close>

lemma loopBody_outcome:
  "\<exists>new. failedTestCases (loopBody cl post st tc) = failedTestCases st @ new \<and>
         failedCount (loopBody cl post st tc) = failedCount st + length new \<and>
         successCount (loopBody cl post st tc) + length new = successCount st + 1 \<and>
         (new = [] \<or> (\<exists>r. new = [\<lparr>id_failed = id_tc tc, title_failed = title tc, reason = r\<rparr>]))"
  by (rule loopBody_cases [where tc = tc and cl = cl and post = post and st = st])
    (simp_all add: recordFailure_def)

lemma mainLoop_outcomes:
  "\<exists>new. failedTestCases (mainLoop cl post st tcs) = failedTestCases st @ new \<and>
         failedCount (mainLoop cl post st tcs) = failedCount st + length new \<and>
         successCount (mainLoop cl post st tcs) + length new = successCount st + length tcs \<and>
         subseq (map keyOfEntry new) (map keyOfTestCase tcs)"
proof (induction tcs arbitrary: st)
  case Nil
  show ?case by simp
next
  case (Cons tc tcs)
  let ?st1 = "loopBody cl post st tc"
  obtain new1 where 1:
    "failedTestCases ?st1 = failedTestCases st @ new1"
    "failedCount ?st1 = failedCount st + length new1"
    "successCount ?st1 + length new1 = successCount st + 1"
    "new1 = [] \<or> (\<exists>r. new1 = [\<lparr>id_failed = id_tc tc, title_failed = title tc, reason = r\<rparr>])"
    using loopBody_outcome [of cl post st tc] by blast
  obtain new2 where 2:
    "failedTestCases (mainLoop cl post ?st1 tcs) = failedTestCases ?st1 @ new2"
    "failedCount (mainLoop cl post ?st1 tcs) = failedCount ?st1 + length new2"
    "successCount (mainLoop cl post ?st1 tcs) + length new2 = successCount ?st1 + length tcs"
    "subseq (map keyOfEntry new2) (map keyOfTestCase tcs)"
    using Cons.IH [of ?st1] by blast
  have order: "subseq (map keyOfEntry (new1 @ new2)) (map keyOfTestCase (tc # tcs))"
    using 1(4) 2(4) by (auto simp add: keyOfEntry_def keyOfTestCase_def)
  show ?case
    using 1(1-3) 2(1-3) order
    by (intro exI [of _ "new1 @ new2"]) simp
qed

lemma failedCount_mono: "failedCount st \<le> failedCount (mainLoop cl post st tcs)"
  using mainLoop_outcomes [of cl post st tcs] by auto

lemma invalid_member_fails:
  "tc \<in> set tcs \<Longrightarrow> invalidTestCase tc \<Longrightarrow>
   failedCount st < failedCount (mainLoop cl post st tcs)"
proof (induction tcs arbitrary: st)
  case Nil
  then show ?case by simp
next
  case (Cons x xs)
  show ?case
  proof (cases "x = tc")
    case True
    then have "failedCount (loopBody cl post st x) = failedCount st + 1"
      using Cons.prems by (simp add: loopBody_invalid recordFailure_def)
    then show ?thesis
      using failedCount_mono [of "loopBody cl post st x" cl post xs] by simp
  next
    case False
    then have "tc \<in> set xs" using Cons.prems by simp
    from Cons.IH [OF this Cons.prems(2), of "loopBody cl post st x"]
    have "failedCount (loopBody cl post st x) < failedCount (mainLoop cl post st (x # xs))"
      by simp
    moreover have "failedCount st \<le> failedCount (loopBody cl post st x)"
      using failedCount_mono [of st cl post "[x]"] by simp
    ultimately show ?thesis by simp
  qed
qed

text \<open>When the setup succeeds, the script is the loop on the loaded list.\<close>

lemma main_after_setup:
  assumes "initialize (findupConfig w) (nconfLoad w) (getSecret w) (base64 w) = Inr cl"
    and "readJson w (if truthy (envTestcaseJson w) then orEmpty (envTestcaseJson w)
                     else bundledJson w) = Inr pl"
    and "testCases pl = Some tcs"
  shows "main w = (fst (syncRun cl (axiosPost w) tcs), Some (snd (syncRun cl (axiosPost w) tcs)))"
  using assms by (simp add: main_def Let_def split: prod.splits)

lemma main_exit_code:
  "main w = (code, res) \<Longrightarrow>
   (case res of None \<Rightarrow> code = 1 | Some fin \<Rightarrow> code = exitCodeOf fin)"
  by (auto simp add: main_def Let_def syncRun_def split: sum.splits option.splits prod.splits)

subsection \<open>The example runs\<close>

lemma valid_tcValid: "\<not> invalidTestCase tcValid"
  by (simp add: invalidTestCase_def tcValid_def truthy_def)

lemma invalid_tcNoSteps: "invalidTestCase tcNoSteps"
  by (simp add: invalidTestCase_def tcNoSteps_def)

lemma valid_tcThird: "\<not> invalidTestCase tcThird"
  by (simp add: invalidTestCase_def tcThird_def truthy_def)

lemma tcNoSteps_fields:
  "id_tc tcNoSteps = Some ''TC-002''" "title tcNoSteps = Some ''Search box is visible''"
  "steps tcNoSteps = Some []"
  by (simp_all add: tcNoSteps_def)

lemma tcThird_fields:
  "id_tc tcThird = Some ''TC-003''" "title tcThird = Some ''Search shows suggestions''"
  by (simp_all add: tcThird_def)

lemma tcValid_fields:
  "id_tc tcValid = Some ''TC-001''" "title tcValid = Some ''Search returns results''"
  by (simp_all add: tcValid_def)

lemma run_skip_only:
  "mainLoop cl post initialState [tcNoSteps] =
     \<lparr>successCount = 0, failedCount = 1,
      failedTestCases = [\<lparr>id_failed = Some ''TC-002'', title_failed = Some ''Search box is visible'',
                          reason = ''Missing title or steps''\<rparr>],
      requests = []\<rparr>"
  by (simp add: loopBody_invalid [OF invalid_tcNoSteps] recordFailure_def initialState_def
      tcNoSteps_fields)

lemma run_valid_then_skip:
  "mainLoop exampleClient remoteFailsAfterTwo initialState [tcValid, tcNoSteps] =
     \<lparr>successCount = 1, failedCount = 1,
      failedTestCases = [\<lparr>id_failed = Some ''TC-002'', title_failed = Some ''Search box is visible'',
                          reason = ''Missing title or steps''\<rparr>],
      requests = [createTestCaseRequest exampleClient (buildTestCaseBody tcValid),
                  addToSuiteRequest exampleClient 4711]\<rparr>"
proof -
  have "loopBody exampleClient remoteFailsAfterTwo initialState tcValid =
        initialState\<lparr>successCount := successCount initialState + 1,
          requests := requests initialState @
            [createTestCaseRequest exampleClient (buildTestCaseBody tcValid),
             addToSuiteRequest exampleClient 4711]\<rparr>"
    by (rule loopBody_success [OF valid_tcValid, where r = 4711])
      (simp_all add: remoteFailsAfterTwo_def initialState_def)
  then show ?thesis
    by (simp add: loopBody_invalid [OF invalid_tcNoSteps] recordFailure_def initialState_def
        tcNoSteps_fields)
qed

lemma run_three:
  "mainLoop exampleClient remoteFailsAfterTwo initialState [tcValid, tcNoSteps, tcThird] =
     \<lparr>successCount = 1, failedCount = 2,
      failedTestCases = [\<lparr>id_failed = Some ''TC-002'', title_failed = Some ''Search box is visible'',
                          reason = ''Missing title or steps''\<rparr>,
                         \<lparr>id_failed = Some ''TC-003'', title_failed = Some ''Search shows suggestions'',
                          reason = ''Request failed with status code 500''\<rparr>],
      requests = [createTestCaseRequest exampleClient (buildTestCaseBody tcValid),
                  addToSuiteRequest exampleClient 4711,
                  createTestCaseRequest exampleClient (buildTestCaseBody tcThird)]\<rparr>"
proof -
  let ?mid = "mainLoop exampleClient remoteFailsAfterTwo initialState [tcValid, tcNoSteps]"
  have "mainLoop exampleClient remoteFailsAfterTwo initialState ([tcValid, tcNoSteps] @ [tcThird])
        = loopBody exampleClient remoteFailsAfterTwo ?mid tcThird"
    unfolding mainLoop_append by simp
  also have "\<dots> = recordFailure
      (?mid\<lparr>requests := requests ?mid @
         [createTestCaseRequest exampleClient (buildTestCaseBody tcThird)]\<rparr>)
      tcThird (message (Error ''Request failed with status code 500''))"
    by (rule loopBody_create_throws [OF valid_tcThird])
      (simp only: run_valid_then_skip, simp add: remoteFailsAfterTwo_def)
  also have "\<dots> =
     \<lparr>successCount = 1, failedCount = 2,
      failedTestCases = [\<lparr>id_failed = Some ''TC-002'', title_failed = Some ''Search box is visible'',
                          reason = ''Missing title or steps''\<rparr>,
                         \<lparr>id_failed = Some ''TC-003'', title_failed = Some ''Search shows suggestions'',
                          reason = ''Request failed with status code 500''\<rparr>],
      requests = [createTestCaseRequest exampleClient (buildTestCaseBody tcValid),
                  addToSuiteRequest exampleClient 4711,
                  createTestCaseRequest exampleClient (buildTestCaseBody tcThird)]\<rparr>"
    by (simp only: run_valid_then_skip) (simp add: recordFailure_def tcThird_fields)
  finally show ?thesis by simp
qed
section \<open>Claims about the synchronisation loop\<close>

text \<open>
  Claim C4. For a valid definition (non-empty title, at least one step) processed without
  error, that is one whose two posts both return, the iteration makes exactly one
  \<^verbatim>\<open>createTestCase\<close> call, which posts the body built for the definition, followed by
  exactly one \<^verbatim>\<open>addToSuite\<close> call, whose URL names the work-item identifier the first
  call returned. Conversely, an iteration that counts a success made exactly these two
  calls, in this order.
\<close>

theorem create_then_add_with_returned_id:
  "(\<not> invalidTestCase tc \<and>
    post (requests st) (createTestCaseRequest cl (buildTestCaseBody tc)) = Inr workItemId \<and>
    post (requests st @ [createTestCaseRequest cl (buildTestCaseBody tc)])
      (addToSuiteRequest cl workItemId) = Inr r \<longrightarrow>
      requests (loopBody cl post st tc) =
        requests st @ [createTestCaseRequest cl (buildTestCaseBody tc),
                       addToSuiteRequest cl workItemId] \<and>
      successCount (loopBody cl post st tc) = successCount st + 1 \<and>
      failedCount (loopBody cl post st tc) = failedCount st \<and>
      failedTestCases (loopBody cl post st tc) = failedTestCases st) \<and>
   (successCount (loopBody cl post st tc) = successCount st + 1 \<longrightarrow>
      \<not> invalidTestCase tc \<and>
      (\<exists>w. post (requests st) (createTestCaseRequest cl (buildTestCaseBody tc)) = Inr w \<and>
           requests (loopBody cl post st tc) =
             requests st @ [createTestCaseRequest cl (buildTestCaseBody tc),
                            addToSuiteRequest cl w])) \<and>
   payload (createTestCaseRequest cl (buildTestCaseBody tc)) = PatchDocument (buildTestCaseBody tc) \<and>
   url (addToSuiteRequest cl workItemId) =
     toText (azureDevOpsOrgUrl (cfg cl)) @ toText (azureDevOpsProject (cfg cl)) @
     ''/_apis/test/Plans/'' @ toText (azureDevOpsPlanId (cfg cl)) @ ''/Suites/'' @
     toText (azureDevOpsSuiteId (cfg cl)) @
     ''/TestCases/'' @ showInt workItemId @ ''?api-version=7.0''"
proof (intro conjI impI)
  assume ok: "\<not> invalidTestCase tc \<and>
    post (requests st) (createTestCaseRequest cl (buildTestCaseBody tc)) = Inr workItemId \<and>
    post (requests st @ [createTestCaseRequest cl (buildTestCaseBody tc)])
      (addToSuiteRequest cl workItemId) = Inr r"
  then have step: "loopBody cl post st tc =
     st\<lparr>successCount := successCount st + 1,
        requests := requests st @
        [createTestCaseRequest cl (buildTestCaseBody tc), addToSuiteRequest cl workItemId]\<rparr>"
    by (intro loopBody_success [where r = r]) simp_all
  show "requests (loopBody cl post st tc) =
        requests st @ [createTestCaseRequest cl (buildTestCaseBody tc),
                       addToSuiteRequest cl workItemId]"
    by (simp add: step)
  show "successCount (loopBody cl post st tc) = successCount st + 1" by (simp add: step)
  show "failedCount (loopBody cl post st tc) = failedCount st" by (simp add: step)
  show "failedTestCases (loopBody cl post st tc) = failedTestCases st" by (simp add: step)
next
  assume counted: "successCount (loopBody cl post st tc) = successCount st + 1"
  show "\<not> invalidTestCase tc"
    using counted
    by (rule_tac loopBody_cases [where tc = tc and cl = cl and post = post and st = st])
      (simp_all add: recordFailure_def)
  show "\<exists>w. post (requests st) (createTestCaseRequest cl (buildTestCaseBody tc)) = Inr w \<and>
           requests (loopBody cl post st tc) =
             requests st @ [createTestCaseRequest cl (buildTestCaseBody tc),
                            addToSuiteRequest cl w]"
    using counted
    by (rule_tac loopBody_cases [where tc = tc and cl = cl and post = post and st = st])
      (simp_all add: recordFailure_def)
next
  show "payload (createTestCaseRequest cl (buildTestCaseBody tc)) = PatchDocument (buildTestCaseBody tc)"
    by (simp add: createTestCaseRequest_def)
  show "url (addToSuiteRequest cl workItemId) =
     toText (azureDevOpsOrgUrl (cfg cl)) @ toText (azureDevOpsProject (cfg cl)) @
     ''/_apis/test/Plans/'' @ toText (azureDevOpsPlanId (cfg cl)) @ ''/Suites/'' @
     toText (azureDevOpsSuiteId (cfg cl)) @
     ''/TestCases/'' @ showInt workItemId @ ''?api-version=7.0''"
    by (simp add: addToSuiteRequest_def)
qed

theorem create_then_add_witness:
  "requests (loopBody exampleClient remoteAccepts initialState tcValid) =
     [createTestCaseRequest exampleClient (buildTestCaseBody tcValid),
      addToSuiteRequest exampleClient 4711] \<and>
   successCount (loopBody exampleClient remoteAccepts initialState tcValid) = 1 \<and>
   (\<exists>w. remoteAccepts []
          (createTestCaseRequest exampleClient (buildTestCaseBody tcValid)) = Inr w \<and>
        requests (loopBody exampleClient remoteAccepts initialState tcValid) =
          [createTestCaseRequest exampleClient (buildTestCaseBody tcValid),
           addToSuiteRequest exampleClient w]) \<and>
   url (addToSuiteRequest exampleClient 4711) =
     ''https://dev.azure.com/org/Xbox/_apis/test/Plans/22228689/Suites/60819220/TestCases/4711?api-version=7.0''"
proof -
  have posts:
    "\<not> invalidTestCase tcValid \<and>
     remoteAccepts (requests initialState)
       (createTestCaseRequest exampleClient (buildTestCaseBody tcValid)) = Inr 4711 \<and>
     remoteAccepts (requests initialState @
       [createTestCaseRequest exampleClient (buildTestCaseBody tcValid)])
       (addToSuiteRequest exampleClient 4711) = Inr 4711"
    by (simp add: remoteAccepts_def valid_tcValid)
  note inst = create_then_add_with_returned_id
    [of tcValid remoteAccepts initialState exampleClient 4711 4711]
  from inst posts have calls:
    "requests (loopBody exampleClient remoteAccepts initialState tcValid) =
       requests initialState @ [createTestCaseRequest exampleClient (buildTestCaseBody tcValid),
                                addToSuiteRequest exampleClient 4711]"
    and count: "successCount (loopBody exampleClient remoteAccepts initialState tcValid) =
       successCount initialState + 1"
    by blast+
  from inst have link: "url (addToSuiteRequest exampleClient 4711) =
     toText (azureDevOpsOrgUrl (cfg exampleClient)) @
     toText (azureDevOpsProject (cfg exampleClient)) @
     ''/_apis/test/Plans/'' @ toText (azureDevOpsPlanId (cfg exampleClient)) @ ''/Suites/'' @
     toText (azureDevOpsSuiteId (cfg exampleClient)) @
     ''/TestCases/'' @ showInt 4711 @ ''?api-version=7.0''"
    by blast
  have digits: "showInt 4711 = ''4711''"
    by (simp add: showInt_def showNat.simps digitChar_def)
  have config: "cfg exampleClient = exampleConfig"
    by (simp add: exampleClient_def setupAuth_def Let_def)
  have start: "requests initialState = []" "successCount initialState = 0"
    by (simp_all add: initialState_def)
  from inst count have counted:
    "\<exists>w. remoteAccepts (requests initialState)
          (createTestCaseRequest exampleClient (buildTestCaseBody tcValid)) = Inr w \<and>
        requests (loopBody exampleClient remoteAccepts initialState tcValid) =
          requests initialState @
          [createTestCaseRequest exampleClient (buildTestCaseBody tcValid),
           addToSuiteRequest exampleClient w]"
    by blast
  have target: "url (addToSuiteRequest exampleClient 4711) =
     ''https://dev.azure.com/org/Xbox/_apis/test/Plans/22228689/Suites/60819220/TestCases/4711?api-version=7.0''"
    unfolding link digits config
    by (simp add: exampleConfig_def showInt_def showNat.simps digitChar_def)
  from calls count counted target show ?thesis
    unfolding start by simp
qed

text \<open>
  Claim C2, as stated, fails on the code in one respect: the outcome of a definition with a
  missing title or an empty step list is not recorded as Skipped, a state apart from
  Failed. The loop has no such state: it counts the definition in \<^verbatim>\<open>failedCount\<close> and
  appends it to \<^verbatim>\<open>failedTestCases\<close>, the list the summary prints as the failed test cases.
\<close>

theorem skipped_recorded_as_failed_counterexample:
  "invalidTestCase tcNoSteps \<and>
   failedCount (mainLoop exampleClient remoteAccepts initialState [tcNoSteps]) = 1 \<and>
   failedTestCases (mainLoop exampleClient remoteAccepts initialState [tcNoSteps]) =
     [\<lparr>id_failed = Some ''TC-002'', title_failed = Some ''Search box is visible'',
       reason = ''Missing title or steps''\<rparr>]"
  by (simp only: run_skip_only) (simp add: invalid_tcNoSteps)

text \<open>
  Claim C2, amended. A definition is invalid exactly when its title is missing or empty or
  its step list is missing or empty. For every such definition the loop makes no remote
  call (the list of posted requests is unchanged), records it as failed (it increments
  \<^verbatim>\<open>failedCount\<close> and appends the definition's id and title to \<^verbatim>\<open>failedTestCases\<close> with the
  reason \<open>Missing title or steps\<close>, leaving \<^verbatim>\<open>successCount\<close> as it is), and continues
  with the remaining definitions.
\<close>

theorem invalid_definition_no_remote_call:
  "invalidTestCase tc =
     (title tc = None \<or> title tc = Some [] \<or> steps tc = None \<or> steps tc = Some []) \<and>
   (invalidTestCase tc \<longrightarrow>
      requests (loopBody cl post st tc) = requests st \<and>
      successCount (loopBody cl post st tc) = successCount st \<and>
      failedCount (loopBody cl post st tc) = failedCount st + 1 \<and>
      failedTestCases (loopBody cl post st tc) =
        failedTestCases st @
        [\<lparr>id_failed = id_tc tc, title_failed = title tc, reason = ''Missing title or steps''\<rparr>] \<and>
      mainLoop cl post st0 (pre @ tc # rest) =
        mainLoop cl post
          (recordFailure (mainLoop cl post st0 pre) tc ''Missing title or steps'') rest)"
proof (intro conjI impI)
  show "invalidTestCase tc =
     (title tc = None \<or> title tc = Some [] \<or> steps tc = None \<or> steps tc = Some [])"
    by (auto simp add: invalidTestCase_def truthy_def split: option.splits)
next
  assume inv: "invalidTestCase tc"
  note step = loopBody_invalid [OF inv]
  show "requests (loopBody cl post st tc) = requests st"
    by (simp add: step recordFailure_def)
  show "successCount (loopBody cl post st tc) = successCount st"
    by (simp add: step recordFailure_def)
  show "failedCount (loopBody cl post st tc) = failedCount st + 1"
    by (simp add: step recordFailure_def)
  show "failedTestCases (loopBody cl post st tc) =
        failedTestCases st @
        [\<lparr>id_failed = id_tc tc, title_failed = title tc, reason = ''Missing title or steps''\<rparr>]"
    by (simp add: step recordFailure_def)
  show "mainLoop cl post st0 (pre @ tc # rest) =
        mainLoop cl post
          (recordFailure (mainLoop cl post st0 pre) tc ''Missing title or steps'') rest"
    by (simp add: mainLoop_append step)
qed

theorem invalid_definition_witness:
  "invalidTestCase tcNoSteps \<and>
   requests (loopBody exampleClient remoteAccepts initialState tcNoSteps) = [] \<and>
   successCount (loopBody exampleClient remoteAccepts initialState tcNoSteps) = 0 \<and>
   failedCount (loopBody exampleClient remoteAccepts initialState tcNoSteps) = 1 \<and>
   mainLoop exampleClient remoteAccepts initialState [tcValid, tcNoSteps, tcThird] =
     mainLoop exampleClient remoteAccepts
       (recordFailure (mainLoop exampleClient remoteAccepts initialState [tcValid])
          tcNoSteps ''Missing title or steps'') [tcThird]"
proof -
  note inst = invalid_definition_no_remote_call
    [of tcNoSteps exampleClient remoteAccepts initialState initialState "[tcValid]" "[tcThird]"]
  have start: "requests initialState = []" "successCount initialState = 0"
    "failedCount initialState = 0"
    by (simp_all add: initialState_def)
  from inst invalid_tcNoSteps show ?thesis
    unfolding start by simp
qed


section \<open>Claims about the run and its exit code\<close>

text \<open>
  Claim C1, as stated, fails on the code: a definition classified as Skipped does affect
  the exit code. The skip branch increments \<^verbatim>\<open>failedCount\<close>, and the script exits with 1
  when \<^verbatim>\<open>failedCount\<close> is positive. A run over one definition with an empty step list makes
  no remote call, so no call fails, and exits with 1.
\<close>

theorem skipped_definition_exit_code_counterexample:
  "invalidTestCase tcNoSteps \<and>
   requests (snd (syncRun exampleClient remoteAccepts [tcNoSteps])) = [] \<and>
   fst (syncRun exampleClient remoteAccepts [tcNoSteps]) = 1"
  unfolding syncRun_def Let_def fst_conv snd_conv run_skip_only
  by (simp add: invalid_tcNoSteps exitCodeOf_def)

text \<open>
  Claim C1, amended. The exit code of a run that reaches the summary is 0 if and only if
  \<^verbatim>\<open>failedCount\<close> is zero, where \<^verbatim>\<open>failedCount\<close> counts the definitions that were skipped
  (missing title or empty step list) as well as those whose remote calls failed;
  equivalently, if and only if the failed list is empty, and if and only if every
  definition was created and linked. One skipped definition forces the exit code 1. An
  empty list exits with 0. Otherwise the code is 1, as it is when the script stops
  before the loop.
\<close>

theorem exit_code_zero_iff_nothing_failed_or_skipped:
  "(fst (syncRun cl post tcs) = 0 \<or> fst (syncRun cl post tcs) = 1) \<and>
   (fst (syncRun cl post tcs) = 0) = (failedCount (snd (syncRun cl post tcs)) = 0) \<and>
   (fst (syncRun cl post tcs) = 0) = (failedTestCases (snd (syncRun cl post tcs)) = []) \<and>
   (fst (syncRun cl post tcs) = 0) = (successCount (snd (syncRun cl post tcs)) = length tcs) \<and>
   ((\<exists>tc \<in> set tcs. invalidTestCase tc) \<longrightarrow> fst (syncRun cl post tcs) = 1) \<and>
   syncRun cl post [] = (0, initialState) \<and>
   (\<forall>code fin. main w = (code, Some fin) \<longrightarrow> (code = 0) = (failedCount fin = 0)) \<and>
   (\<forall>code. main w = (code, None) \<longrightarrow> code = 1)"
proof -
  let ?fin = "mainLoop cl post initialState tcs"
  have run: "syncRun cl post tcs = (exitCodeOf ?fin, ?fin)"
    by (simp add: syncRun_def Let_def)
  obtain new where new:
    "failedTestCases ?fin = new" "failedCount ?fin = length new"
    "successCount ?fin + length new = length tcs"
    using mainLoop_outcomes [of cl post initialState tcs] by (auto simp add: initialState_def)
  have skip: "(\<exists>tc \<in> set tcs. invalidTestCase tc) \<longrightarrow> exitCodeOf ?fin = 1"
    using invalid_member_fails [of _ tcs initialState cl post]
    by (auto simp add: exitCodeOf_def)
  have empty: "syncRun cl post [] = (0, initialState)"
    by (simp add: syncRun_def Let_def exitCodeOf_def initialState_def)
  have whole: "\<forall>code fin. main w = (code, Some fin) \<longrightarrow> (code = 0) = (failedCount fin = 0)"
    using main_exit_code [of w] by (auto simp add: exitCodeOf_def split: if_splits)
  have fatal: "\<forall>code. main w = (code, None) \<longrightarrow> code = 1"
    using main_exit_code [of w] by auto
  have loop: "(exitCodeOf ?fin = 0 \<or> exitCodeOf ?fin = 1) \<and>
    (exitCodeOf ?fin = 0) = (failedCount ?fin = 0) \<and>
    (exitCodeOf ?fin = 0) = (failedTestCases ?fin = []) \<and>
    (exitCodeOf ?fin = 0) = (successCount ?fin = length tcs)"
    using new by (auto simp add: exitCodeOf_def)
  show ?thesis
    unfolding run fst_conv snd_conv using loop skip empty whole fatal by blast
qed

lemma initialize_exampleWorld:
  "initialize (findupConfig exampleWorld) (nconfLoad exampleWorld) (getSecret exampleWorld)
     (base64 exampleWorld) = Inr exampleClient"
  by (simp add: initialize_def loadConfig_def requiredFields_def fetchSecrets_def
      exampleWorld_def exampleNconf_def exampleGet_def exampleClient_def exampleConfig_def
      truthy_def orEmpty_def Let_def)

lemma main_exampleWorld:
  "main exampleWorld =
     (fst (syncRun exampleClient remoteAccepts [tcValid, tcNoSteps]),
      Some (snd (syncRun exampleClient remoteAccepts [tcValid, tcNoSteps])))"
proof -
  have "main exampleWorld =
     (fst (syncRun exampleClient (axiosPost exampleWorld) [tcValid, tcNoSteps]),
      Some (snd (syncRun exampleClient (axiosPost exampleWorld) [tcValid, tcNoSteps])))"
    by (rule main_after_setup [OF initialize_exampleWorld, where pl = "\<lparr>testCases = Some [tcValid, tcNoSteps]\<rparr>"])
      (simp_all add: exampleWorld_def)
  then show ?thesis by (simp add: exampleWorld_def)
qed

theorem exit_code_witness:
  "fst (syncRun exampleClient remoteAccepts [tcValid, tcNoSteps]) = 1 \<and>
   fst (syncRun exampleClient remoteAccepts [tcValid]) = 0 \<and>
   syncRun exampleClient remoteAccepts [] = (0, initialState) \<and>
   fst (main exampleWorld) = 1 \<and>
   failedCount (snd (syncRun exampleClient remoteAccepts [tcValid, tcNoSteps])) \<noteq> 0 \<and>
   main noConfigWorld = (1, None)"
proof -
  note skip = exit_code_zero_iff_nothing_failed_or_skipped
    [of exampleClient remoteAccepts "[tcValid, tcNoSteps]" exampleWorld]
  note good = exit_code_zero_iff_nothing_failed_or_skipped
    [of exampleClient remoteAccepts "[tcValid]" noConfigWorld]
  have "\<exists>tc \<in> set [tcValid, tcNoSteps]. invalidTestCase tc"
    using invalid_tcNoSteps by simp
  with skip have 1: "fst (syncRun exampleClient remoteAccepts [tcValid, tcNoSteps]) = 1"
    by blast
  have "loopBody exampleClient remoteAccepts initialState tcValid =
        initialState\<lparr>successCount := successCount initialState + 1,
          requests := requests initialState @
            [createTestCaseRequest exampleClient (buildTestCaseBody tcValid),
             addToSuiteRequest exampleClient 4711]\<rparr>"
    by (rule loopBody_success [OF valid_tcValid, where r = 4711])
      (simp_all add: remoteAccepts_def)
  then have "successCount (snd (syncRun exampleClient remoteAccepts [tcValid])) = length [tcValid]"
    by (simp add: syncRun_def Let_def initialState_def)
  with good have 2: "fst (syncRun exampleClient remoteAccepts [tcValid]) = 0"
    by blast
  from good have 3: "syncRun exampleClient remoteAccepts [] = (0, initialState)"
    by blast
  from skip 1 have 5:
    "failedCount (snd (syncRun exampleClient remoteAccepts [tcValid, tcNoSteps])) \<noteq> 0"
    by simp
  from skip have whole: "\<forall>code fin. main exampleWorld = (code, Some fin) \<longrightarrow>
      (code = 0) = (failedCount fin = 0)"
    by blast
  have ran: "main exampleWorld =
     (fst (main exampleWorld), Some (snd (syncRun exampleClient remoteAccepts [tcValid, tcNoSteps])))"
    by (simp add: main_exampleWorld)
  from whole [rule_format, OF ran] 5 have "fst (main exampleWorld) \<noteq> 0"
    by simp
  moreover from skip have
    "fst (syncRun exampleClient remoteAccepts [tcValid, tcNoSteps]) = 0 \<or>
     fst (syncRun exampleClient remoteAccepts [tcValid, tcNoSteps]) = 1"
    by blast
  moreover have "fst (main exampleWorld) = fst (syncRun exampleClient remoteAccepts [tcValid, tcNoSteps])"
    by (simp add: main_exampleWorld)
  ultimately have 4: "fst (main exampleWorld) = 1" by presburger
  from good have fatal: "\<forall>code. main noConfigWorld = (code, None) \<longrightarrow> code = 1"
    by blast
  have stopped: "main noConfigWorld = (fst (main noConfigWorld), None)"
    by (simp add: main_def initialize_def loadConfig_def noConfigWorld_def exampleWorld_def)
  from fatal [rule_format, OF stopped] have "fst (main noConfigWorld) = 1" .
  with stopped have 6: "main noConfigWorld = (1, None)" by simp
  from 1 2 3 4 5 6 show ?thesis by blast
qed

text \<open>
  Claim C3, as stated, fails on the code: with a valid first definition, an empty step list
  in the second and a third whose \<^verbatim>\<open>createTestCase\<close> call throws, the summary counts are
  one created and two failed. The summary has no count of skipped definitions, and the
  definition with no steps is counted as failed.
\<close>

theorem three_definitions_counterexample:
  "\<not> invalidTestCase tcValid \<and> steps tcNoSteps = Some [] \<and> \<not> invalidTestCase tcThird \<and>
   remoteFailsAfterTwo
     [createTestCaseRequest exampleClient (buildTestCaseBody tcValid),
      addToSuiteRequest exampleClient 4711]
     (createTestCaseRequest exampleClient (buildTestCaseBody tcThird))
     = Inl (Error ''Request failed with status code 500'') \<and>
   successCount (snd (syncRun exampleClient remoteFailsAfterTwo [tcValid, tcNoSteps, tcThird])) = 1 \<and>
   failedCount (snd (syncRun exampleClient remoteFailsAfterTwo [tcValid, tcNoSteps, tcThird])) = 2 \<and>
   fst (syncRun exampleClient remoteFailsAfterTwo [tcValid, tcNoSteps, tcThird]) = 1"
  unfolding syncRun_def Let_def fst_conv snd_conv run_three
  by (simp add: valid_tcValid valid_tcThird tcNoSteps_fields remoteFailsAfterTwo_def exitCodeOf_def)

text \<open>
  Claim C3, amended. Given a list of exactly three definitions where the first is valid and
  is created and linked, the second has an empty step list, and the third is valid and its
  \<^verbatim>\<open>createTestCase\<close> call throws, the run ends with the summary counts successfully
  created = 1 and failed = 2 (the definition with no steps and the one whose call threw,
  in this order, each with its reason), after three posts, and the process exits with
  code 1.
\<close>

theorem three_definitions_scenario:
  assumes "\<not> invalidTestCase tc1"
    and "post [] (createTestCaseRequest cl (buildTestCaseBody tc1)) = Inr w1"
    and "post [createTestCaseRequest cl (buildTestCaseBody tc1)] (addToSuiteRequest cl w1) = Inr r1"
    and "steps tc2 = Some []"
    and "\<not> invalidTestCase tc3"
    and "post [createTestCaseRequest cl (buildTestCaseBody tc1), addToSuiteRequest cl w1]
           (createTestCaseRequest cl (buildTestCaseBody tc3)) = Inl e"
  shows "syncRun cl post [tc1, tc2, tc3] =
     (1, \<lparr>successCount = 1, failedCount = 2,
          failedTestCases =
            [\<lparr>id_failed = id_tc tc2, title_failed = title tc2, reason = ''Missing title or steps''\<rparr>,
             \<lparr>id_failed = id_tc tc3, title_failed = title tc3, reason = message e\<rparr>],
          requests =
            [createTestCaseRequest cl (buildTestCaseBody tc1), addToSuiteRequest cl w1,
             createTestCaseRequest cl (buildTestCaseBody tc3)]\<rparr>)"
proof -
  let ?c1 = "createTestCaseRequest cl (buildTestCaseBody tc1)"
  let ?a1 = "addToSuiteRequest cl w1"
  let ?c3 = "createTestCaseRequest cl (buildTestCaseBody tc3)"
  let ?e2 = "\<lparr>id_failed = id_tc tc2, title_failed = title tc2, reason = ''Missing title or steps''\<rparr>"
  let ?s1 = "\<lparr>successCount = 1, failedCount = 0, failedTestCases = [], requests = [?c1, ?a1]\<rparr>"
  let ?s2 = "\<lparr>successCount = 1, failedCount = 1, failedTestCases = [?e2], requests = [?c1, ?a1]\<rparr>"
  have 1: "loopBody cl post initialState tc1 = ?s1"
    using loopBody_success [of tc1 post initialState cl w1 r1] assms(1-3)
    by (simp add: initialState_def)
  have "invalidTestCase tc2"
    using assms(4) by (simp add: invalidTestCase_def)
  then have 2: "loopBody cl post ?s1 tc2 = ?s2"
    by (simp add: loopBody_invalid recordFailure_def)
  have 3: "loopBody cl post ?s2 tc3 =
     \<lparr>successCount = 1, failedCount = 2,
      failedTestCases = [?e2, \<lparr>id_failed = id_tc tc3, title_failed = title tc3, reason = message e\<rparr>],
      requests = [?c1, ?a1, ?c3]\<rparr>"
    using loopBody_create_throws [of tc3 post ?s2 cl e] assms(5,6)
    by (simp add: recordFailure_def)
  have "mainLoop cl post initialState [tc1, tc2, tc3] =
     \<lparr>successCount = 1, failedCount = 2,
      failedTestCases = [?e2, \<lparr>id_failed = id_tc tc3, title_failed = title tc3, reason = message e\<rparr>],
      requests = [?c1, ?a1, ?c3]\<rparr>"
    by (simp only: mainLoop.simps 1 2 3)
  then show ?thesis
    by (simp add: syncRun_def Let_def exitCodeOf_def)
qed

theorem three_definitions_witness:
  "syncRun exampleClient remoteFailsAfterTwo [tcValid, tcNoSteps, tcThird] =
     (1, \<lparr>successCount = 1, failedCount = 2,
          failedTestCases =
            [\<lparr>id_failed = Some ''TC-002'', title_failed = Some ''Search box is visible'',
              reason = ''Missing title or steps''\<rparr>,
             \<lparr>id_failed = Some ''TC-003'', title_failed = Some ''Search shows suggestions'',
              reason = ''Request failed with status code 500''\<rparr>],
          requests =
            [createTestCaseRequest exampleClient (buildTestCaseBody tcValid),
             addToSuiteRequest exampleClient 4711,
             createTestCaseRequest exampleClient (buildTestCaseBody tcThird)]\<rparr>)"
proof -
  have "syncRun exampleClient remoteFailsAfterTwo [tcValid, tcNoSteps, tcThird] =
     (1, \<lparr>successCount = 1, failedCount = 2,
          failedTestCases =
            [\<lparr>id_failed = id_tc tcNoSteps, title_failed = title tcNoSteps,
              reason = ''Missing title or steps''\<rparr>,
             \<lparr>id_failed = id_tc tcThird, title_failed = title tcThird,
              reason = message (Error ''Request failed with status code 500'')\<rparr>],
          requests =
            [createTestCaseRequest exampleClient (buildTestCaseBody tcValid),
             addToSuiteRequest exampleClient 4711,
             createTestCaseRequest exampleClient (buildTestCaseBody tcThird)]\<rparr>)"
    by (rule three_definitions_scenario [OF valid_tcValid _ _ _ valid_tcThird, where ?r1.0 = 4711])
      (simp_all add: remoteFailsAfterTwo_def tcNoSteps_fields)
  then show ?thesis by (simp add: tcNoSteps_fields tcThird_fields)
qed
section \<open>Claims about the configuration resolver\<close>

lemma checkFields_None:
  "(checkFields fs = None) = (\<forall>(k, v) \<in> set fs. truthyConf v)"
  by (induction fs rule: checkFields.induct) auto

lemma checkFields_Some:
  "checkFields fs = Some e \<Longrightarrow>
   \<exists>k v. (k, v) \<in> set fs \<and> \<not> truthyConf v \<and>
     e = Error (''Missing required configuration: '' @ k)"
  by (induction fs rule: checkFields.induct) (auto split: if_splits)

lemma requiredFields_keys:
  "set (requiredFields get) = (\<lambda>k. (k, get k)) ` set requiredKeys"
  by (simp add: requiredFields_def requiredKeys_def)

lemma all_fields_truthy:
  "(checkFields (requiredFields get) = None) = (\<forall>k \<in> set requiredKeys. truthyConf (get k))"
  unfolding checkFields_None requiredFields_keys by auto

lemma falsy_values:
  "(\<not> truthyConf v) =
     (v = CUndefined \<or> v = CNull \<or> v = CBool False \<or> v = CNumber 0 \<or> v = CString [])"
  by (cases v) simp_all

lemma loadConfig_not_found:
  "loadConfig None load = Inl (Error ''Cannot find the config file config.json'')"
  by (simp add: loadConfig_def)

lemma loadConfig_load_throws:
  "load p = Inl e \<Longrightarrow> loadConfig (Some p) load = Inl e"
  by (simp add: loadConfig_def)

lemma loadConfig_missing:
  assumes "load p = Inr get" and "k \<in> set requiredKeys" and "\<not> truthyConf (get k)"
  shows "\<exists>k' \<in> set requiredKeys. \<not> truthyConf (get k') \<and>
     loadConfig (Some p) load = Inl (Error (''Missing required configuration: '' @ k'))"
proof -
  from assms(2,3) have "checkFields (requiredFields get) \<noteq> None"
    using all_fields_truthy [of get] by blast
  then obtain e where e: "checkFields (requiredFields get) = Some e" by blast
  from checkFields_Some [OF this] obtain k' v where
    "(k', v) \<in> set (requiredFields get)" "\<not> truthyConf v"
    "e = Error (''Missing required configuration: '' @ k')"
    by blast
  then have "k' \<in> set requiredKeys \<and> \<not> truthyConf (get k')"
    unfolding requiredFields_keys by auto
  moreover have "loadConfig (Some p) load = Inl e"
    by (simp add: loadConfig_def assms(1) e)
  ultimately show ?thesis
    using \<open>e = Error (''Missing required configuration: '' @ k')\<close> by blast
qed

lemma loadConfig_complete:
  assumes "load p = Inr get" and "\<forall>k \<in> set requiredKeys. truthyConf (get k)"
  shows "loadConfig (Some p) load =
     Inr \<lparr>keyVaultUrl = get ''keyVaultUrl'',
          azureDevOpsPatSecretName = get ''azureDevOpsPatSecretName'',
          azureDevOpsOrgUrl = get ''azureDevOpsOrgUrl'',
          azureDevOpsProject = get ''azureDevOpsProject'',
          azureDevOpsPlanId = get ''azureDevOpsPlanId'',
          azureDevOpsSuiteId = get ''azureDevOpsSuiteId''\<rparr>"
proof -
  from assms(2) have "checkFields (requiredFields get) = None"
    using all_fields_truthy [of get] by blast
  then show ?thesis by (simp add: loadConfig_def assms(1))
qed

text \<open>With a file found and loaded, the resolver fails exactly on a falsy required field.\<close>

lemma loadConfig_loaded:
  assumes "load p = Inr get"
  shows "isl (loadConfig (Some p) load) = (\<exists>k \<in> set requiredKeys. \<not> truthyConf (get k))"
proof (cases "\<forall>k \<in> set requiredKeys. truthyConf (get k)")
  case True
  from loadConfig_complete [where load = load and p = p and get = get, OF assms True] True
  show ?thesis by simp
next
  case False
  then obtain k where "k \<in> set requiredKeys" "\<not> truthyConf (get k)" by blast
  from loadConfig_missing [where load = load and p = p and get = get, OF assms this] False
  show ?thesis by auto
qed

lemma main_config_error:
  "loadConfig (findupConfig w) (nconfLoad w) = Inl e \<Longrightarrow> main w = (1, None)"
  by (simp add: main_def initialize_def)

text \<open>
  Claim C8, as stated, fails on the code in two ways. The resolver also signals an error
  when the file is located but loading it throws (a file that is not JSON): the call
  \<^verbatim>\<open>nconf.argv().env().file(configPath)\<close> stands inside the \<^verbatim>\<open>try\<close>, and what it throws is
  thrown again. And the check of a required field is JavaScript falsiness, so a field
  that is neither missing nor empty fails it too: with the plan identifier 0 in a file
  that is located and complete, the resolver reports the plan identifier as missing.
\<close>

theorem loadConfig_counterexample:
  "loadConfig (Some ''/repo/config.json'') unparsableNconf
     = Inl (Error ''Error parsing your configuration file'') \<and>
   zeroPlanNconf ''/repo/config.json'' = Inr zeroPlanGet \<and>
   \<not> missingOrEmpty (zeroPlanGet ''keyVaultUrl'') \<and>
   \<not> missingOrEmpty (zeroPlanGet ''azureDevOpsPatSecretName'') \<and>
   \<not> missingOrEmpty (zeroPlanGet ''azureDevOpsOrgUrl'') \<and>
   \<not> missingOrEmpty (zeroPlanGet ''azureDevOpsProject'') \<and>
   \<not> missingOrEmpty (zeroPlanGet ''azureDevOpsPlanId'') \<and>
   \<not> missingOrEmpty (zeroPlanGet ''azureDevOpsSuiteId'') \<and>
   loadConfig (Some ''/repo/config.json'') zeroPlanNconf
     = Inl (Error ''Missing required configuration: azureDevOpsPlanId'')"
proof (intro conjI)
  show "loadConfig (Some ''/repo/config.json'') unparsableNconf
     = Inl (Error ''Error parsing your configuration file'')"
    by (simp add: loadConfig_def unparsableNconf_def)
  show "zeroPlanNconf ''/repo/config.json'' = Inr zeroPlanGet"
    by (simp add: zeroPlanNconf_def)
  show "loadConfig (Some ''/repo/config.json'') zeroPlanNconf
     = Inl (Error ''Missing required configuration: azureDevOpsPlanId'')"
    by (simp add: loadConfig_def zeroPlanNconf_def requiredFields_def zeroPlanGet_def
        exampleGet_def)
qed (simp_all add: missingOrEmpty_def zeroPlanGet_def exampleGet_def)

text \<open>
  Claim C8, amended. The configuration resolver signals an error exactly when the upward
  search finds no config file, or loading the located file throws (the error is then the
  one the loader threw), or one of the six required fields (secret-store URL, secret
  name, organisation URL, project, plan id, suite id) is falsy, that is missing, null,
  false, 0 or the empty string (the error then names such a field). On every such error
  the run stops with exit code 1 before anything else is done; nothing is retried.
  Otherwise the resolver yields a record populated with the six configured values, each
  of them truthy.
\<close>

theorem loadConfig_error_iff:
  "isl (loadConfig findup load) =
     (findup = None \<or>
      (\<exists>p. findup = Some p \<and>
         (isl (load p) \<or>
          (\<exists>get k. load p = Inr get \<and> k \<in> set requiredKeys \<and> \<not> truthyConf (get k))))) \<and>
   (\<not> truthyConf v) =
     (v = CUndefined \<or> v = CNull \<or> v = CBool False \<or> v = CNumber 0 \<or> v = CString []) \<and>
   (findup = None \<longrightarrow>
      loadConfig findup load = Inl (Error ''Cannot find the config file config.json'')) \<and>
   (\<forall>p e. findup = Some p \<and> load p = Inl e \<longrightarrow> loadConfig findup load = Inl e) \<and>
   (\<forall>p get. findup = Some p \<and> load p = Inr get \<and> isl (loadConfig findup load) \<longrightarrow>
      (\<exists>k \<in> set requiredKeys. \<not> truthyConf (get k) \<and>
         loadConfig findup load = Inl (Error (''Missing required configuration: '' @ k)))) \<and>
   (\<forall>c. loadConfig findup load = Inr c \<longrightarrow>
      (\<exists>p get. findup = Some p \<and> load p = Inr get \<and>
         c = \<lparr>keyVaultUrl = get ''keyVaultUrl'',
               azureDevOpsPatSecretName = get ''azureDevOpsPatSecretName'',
               azureDevOpsOrgUrl = get ''azureDevOpsOrgUrl'',
               azureDevOpsProject = get ''azureDevOpsProject'',
               azureDevOpsPlanId = get ''azureDevOpsPlanId'',
               azureDevOpsSuiteId = get ''azureDevOpsSuiteId''\<rparr> \<and>
         truthyConf (keyVaultUrl c) \<and> truthyConf (azureDevOpsPatSecretName c) \<and>
         truthyConf (azureDevOpsOrgUrl c) \<and> truthyConf (azureDevOpsProject c) \<and>
         truthyConf (azureDevOpsPlanId c) \<and> truthyConf (azureDevOpsSuiteId c))) \<and>
   (isl (loadConfig (findupConfig w) (nconfLoad w)) \<longrightarrow> main w = (1, None)) \<and>
   requiredKeys =
     [''keyVaultUrl'', ''azureDevOpsPatSecretName'', ''azureDevOpsOrgUrl'',
      ''azureDevOpsProject'', ''azureDevOpsPlanId'', ''azureDevOpsSuiteId'']"
proof -
  have 1: "isl (loadConfig findup load) =
     (findup = None \<or>
      (\<exists>p. findup = Some p \<and>
         (isl (load p) \<or>
          (\<exists>get k. load p = Inr get \<and> k \<in> set requiredKeys \<and> \<not> truthyConf (get k)))))"
  proof (cases findup)
    case None
    then show ?thesis by (simp add: loadConfig_not_found)
  next
    case (Some p)
    show ?thesis
    proof (cases "load p")
      case (Inl e)
      with Some show ?thesis by (simp add: loadConfig_load_throws)
    next
      case (Inr get)
      with Some loadConfig_loaded [where load = load and p = p and get = get, OF Inr]
      show ?thesis by auto
    qed
  qed
  have 2: "(\<not> truthyConf v) =
     (v = CUndefined \<or> v = CNull \<or> v = CBool False \<or> v = CNumber 0 \<or> v = CString [])"
    by (rule falsy_values)
  have 3: "findup = None \<longrightarrow>
      loadConfig findup load = Inl (Error ''Cannot find the config file config.json'')"
    by (simp add: loadConfig_not_found)
  have 4: "\<forall>p e. findup = Some p \<and> load p = Inl e \<longrightarrow> loadConfig findup load = Inl e"
    by (simp add: loadConfig_load_throws)
  have 5: "\<forall>p get. findup = Some p \<and> load p = Inr get \<and> isl (loadConfig findup load) \<longrightarrow>
      (\<exists>k \<in> set requiredKeys. \<not> truthyConf (get k) \<and>
         loadConfig findup load = Inl (Error (''Missing required configuration: '' @ k)))"
  proof (intro allI impI)
    fix p get
    assume a: "findup = Some p \<and> load p = Inr get \<and> isl (loadConfig findup load)"
    then have loaded: "load p = Inr get" by simp
    from a loadConfig_loaded [where load = load and p = p and get = get, OF loaded] obtain k where
      "k \<in> set requiredKeys" "\<not> truthyConf (get k)"
      by auto
    from loadConfig_missing [where load = load and p = p and get = get, OF loaded this] a
    show "\<exists>k \<in> set requiredKeys. \<not> truthyConf (get k) \<and>
         loadConfig findup load = Inl (Error (''Missing required configuration: '' @ k))"
      by auto
  qed
  have 6: "\<forall>c. loadConfig findup load = Inr c \<longrightarrow>
      (\<exists>p get. findup = Some p \<and> load p = Inr get \<and>
         c = \<lparr>keyVaultUrl = get ''keyVaultUrl'',
               azureDevOpsPatSecretName = get ''azureDevOpsPatSecretName'',
               azureDevOpsOrgUrl = get ''azureDevOpsOrgUrl'',
               azureDevOpsProject = get ''azureDevOpsProject'',
               azureDevOpsPlanId = get ''azureDevOpsPlanId'',
               azureDevOpsSuiteId = get ''azureDevOpsSuiteId''\<rparr> \<and>
         truthyConf (keyVaultUrl c) \<and> truthyConf (azureDevOpsPatSecretName c) \<and>
         truthyConf (azureDevOpsOrgUrl c) \<and> truthyConf (azureDevOpsProject c) \<and>
         truthyConf (azureDevOpsPlanId c) \<and> truthyConf (azureDevOpsSuiteId c))"
  proof (intro allI impI)
    fix c
    assume ok: "loadConfig findup load = Inr c"
    then obtain p where p: "findup = Some p"
      by (cases findup) (simp_all add: loadConfig_not_found)
    from ok p obtain get where loaded: "load p = Inr get"
      by (cases "load p") (simp_all add: loadConfig_load_throws)
    from ok p loadConfig_loaded [where load = load and p = p and get = get, OF loaded]
    have all: "\<forall>k \<in> set requiredKeys. truthyConf (get k)"
      by auto
    from loadConfig_complete [where load = load and p = p and get = get, OF loaded all] ok p
    have c:
      "c = \<lparr>keyVaultUrl = get ''keyVaultUrl'',
            azureDevOpsPatSecretName = get ''azureDevOpsPatSecretName'',
            azureDevOpsOrgUrl = get ''azureDevOpsOrgUrl'',
            azureDevOpsProject = get ''azureDevOpsProject'',
            azureDevOpsPlanId = get ''azureDevOpsPlanId'',
            azureDevOpsSuiteId = get ''azureDevOpsSuiteId''\<rparr>"
      by simp
    have truthy_fields:
      "truthyConf (keyVaultUrl c) \<and> truthyConf (azureDevOpsPatSecretName c) \<and>
       truthyConf (azureDevOpsOrgUrl c) \<and> truthyConf (azureDevOpsProject c) \<and>
       truthyConf (azureDevOpsPlanId c) \<and> truthyConf (azureDevOpsSuiteId c)"
      using all unfolding c by (simp add: requiredKeys_def)
    from p loaded c truthy_fields
    show "\<exists>p get. findup = Some p \<and> load p = Inr get \<and>
         c = \<lparr>keyVaultUrl = get ''keyVaultUrl'',
               azureDevOpsPatSecretName = get ''azureDevOpsPatSecretName'',
               azureDevOpsOrgUrl = get ''azureDevOpsOrgUrl'',
               azureDevOpsProject = get ''azureDevOpsProject'',
               azureDevOpsPlanId = get ''azureDevOpsPlanId'',
               azureDevOpsSuiteId = get ''azureDevOpsSuiteId''\<rparr> \<and>
         truthyConf (keyVaultUrl c) \<and> truthyConf (azureDevOpsPatSecretName c) \<and>
         truthyConf (azureDevOpsOrgUrl c) \<and> truthyConf (azureDevOpsProject c) \<and>
         truthyConf (azureDevOpsPlanId c) \<and> truthyConf (azureDevOpsSuiteId c)"
      by blast
  qed
  have 7: "isl (loadConfig (findupConfig w) (nconfLoad w)) \<longrightarrow> main w = (1, None)"
    using main_config_error [of w] by (auto simp add: isl_def)
  show ?thesis
    using 1 2 3 4 5 6 7 requiredKeys_def by blast
qed

theorem loadConfig_witness:
  "loadConfig (Some ''/repo/config.json'') exampleNconf = Inr exampleConfig \<and>
   loadConfig None exampleNconf = Inl (Error ''Cannot find the config file config.json'') \<and>
   loadConfig (Some ''/repo/config.json'') unparsableNconf
     = Inl (Error ''Error parsing your configuration file'') \<and>
   loadConfig (Some ''/repo/config.json'') emptySuiteNconf
     = Inl (Error ''Missing required configuration: azureDevOpsSuiteId'') \<and>
   main noConfigWorld = (1, None)"
proof -
  let ?path = "''/repo/config.json''"
  let ?emptyGet = "exampleGet(''azureDevOpsSuiteId'' := CString [])"
  note found = loadConfig_error_iff [of "Some ?path" exampleNconf CNull noConfigWorld]
  note lost = loadConfig_error_iff [of None exampleNconf CNull noConfigWorld]
  note broken = loadConfig_error_iff [of "Some ?path" unparsableNconf CNull noConfigWorld]
  note empty = loadConfig_error_iff [of "Some ?path" emptySuiteNconf CNull noConfigWorld]
  note found_iff = found [THEN conjunct1]
  note found_record = found [THEN conjunct2, THEN conjunct2, THEN conjunct2, THEN conjunct2,
      THEN conjunct2, THEN conjunct1, rule_format]
  note lost_error = lost [THEN conjunct2, THEN conjunct2, THEN conjunct1, rule_format]
  note lost_main = lost [THEN conjunct2, THEN conjunct2, THEN conjunct2, THEN conjunct2,
      THEN conjunct2, THEN conjunct2, THEN conjunct1, rule_format]
  note broken_error = broken [THEN conjunct2, THEN conjunct2, THEN conjunct2, THEN conjunct1,
      rule_format]
  note empty_iff = empty [THEN conjunct1]
  note empty_error = empty [THEN conjunct2, THEN conjunct2, THEN conjunct2, THEN conjunct2,
      THEN conjunct1, rule_format]
  have loaded: "exampleNconf ?path = Inr exampleGet"
    by (simp add: exampleNconf_def)
  have keys: "\<forall>k \<in> set requiredKeys. truthyConf (exampleGet k)"
    by (simp add: requiredKeys_def exampleGet_def)
  have "\<not> isl (loadConfig (Some ?path) exampleNconf)"
    unfolding found_iff using loaded keys by simp
  then obtain c where c: "loadConfig (Some ?path) exampleNconf = Inr c"
    by (cases "loadConfig (Some ?path) exampleNconf") auto
  from found_record [OF c] obtain p get where
    got: "exampleNconf p = Inr get" and
    fields: "c = \<lparr>keyVaultUrl = get ''keyVaultUrl'',
          azureDevOpsPatSecretName = get ''azureDevOpsPatSecretName'',
          azureDevOpsOrgUrl = get ''azureDevOpsOrgUrl'',
          azureDevOpsProject = get ''azureDevOpsProject'',
          azureDevOpsPlanId = get ''azureDevOpsPlanId'',
          azureDevOpsSuiteId = get ''azureDevOpsSuiteId''\<rparr>"
    by blast
  from got have "get = exampleGet" by (simp add: exampleNconf_def)
  with fields have "c = exampleConfig"
    by (simp add: exampleGet_def exampleConfig_def)
  with c have 1: "loadConfig (Some ?path) exampleNconf = Inr exampleConfig"
    by simp
  have 2: "loadConfig None exampleNconf = Inl (Error ''Cannot find the config file config.json'')"
    by (rule lost_error) simp
  have 3: "loadConfig (Some ?path) unparsableNconf
     = Inl (Error ''Error parsing your configuration file'')"
    by (rule broken_error) (simp add: unparsableNconf_def)
  have loaded': "emptySuiteNconf ?path = Inr ?emptyGet"
    by (simp add: emptySuiteNconf_def)
  have only: "\<forall>k \<in> set requiredKeys. \<not> truthyConf (?emptyGet k) \<longrightarrow> k = ''azureDevOpsSuiteId''"
    by (simp add: requiredKeys_def exampleGet_def)
  have falsy: "''azureDevOpsSuiteId'' \<in> set requiredKeys \<and>
      \<not> truthyConf (?emptyGet ''azureDevOpsSuiteId'')"
    by (simp add: requiredKeys_def)
  have failed: "isl (loadConfig (Some ?path) emptySuiteNconf)"
    unfolding empty_iff using loaded' falsy by blast
  have "Some ?path = Some ?path \<and> emptySuiteNconf ?path = Inr ?emptyGet \<and>
      isl (loadConfig (Some ?path) emptySuiteNconf)"
    using loaded' failed by simp
  from empty_error [OF this] obtain k where k: "k \<in> set requiredKeys"
    "\<not> truthyConf (?emptyGet k)" and
    named: "loadConfig (Some ?path) emptySuiteNconf
            = Inl (Error (''Missing required configuration: '' @ k))"
    by blast
  from only k have "k = ''azureDevOpsSuiteId''" by blast
  with named have 4: "loadConfig (Some ?path) emptySuiteNconf
     = Inl (Error ''Missing required configuration: azureDevOpsSuiteId'')"
    by simp
  have "findupConfig noConfigWorld = None"
    by (simp add: noConfigWorld_def)
  then have "isl (loadConfig (findupConfig noConfigWorld) (nconfLoad noConfigWorld))"
    by (simp add: loadConfig_not_found)
  then have 5: "main noConfigWorld = (1, None)"
    by (rule lost_main)
  from 1 2 3 4 5 show ?thesis by blast
qed

section \<open>Claims about the retry helper\<close>

lemma failedAttempts_step:
  "a < k \<Longrightarrow> failedAttempts d a k = [Invoke a, Wait (d * 2 ^ a)] @ failedAttempts d (Suc a) k"
  by (simp add: failedAttempts_def upt_conv_Cons)

lemma failedAttempts_empty: "failedAttempts d a a = []"
  by (simp add: failedAttempts_def)

text \<open>The four ways through one turn of the loop.\<close>

lemma retryLoop_stop: "\<not> int a < m \<Longrightarrow> retryLoop act m d a le tr = (Inl le, tr)"
  by (subst retryLoop.simps) simp

lemma retryLoop_return:
  "int a < m \<Longrightarrow> act a = Inr v \<Longrightarrow> retryLoop act m d a le tr = (Inr v, tr @ [Invoke a])"
  by (subst retryLoop.simps) simp

lemma retryLoop_wait:
  "int a < m - 1 \<Longrightarrow> act a = Inl e \<Longrightarrow>
   retryLoop act m d a le tr =
   retryLoop act m d (Suc a) (Some e) (tr @ [Invoke a, Wait (d * 2 ^ a)])"
  by (subst retryLoop.simps) simp

lemma retryLoop_last:
  assumes "int a < m" and "\<not> int a < m - 1" and "act a = Inl e"
  shows "retryLoop act m d a le tr = (Inl (Some e), tr @ [Invoke a])"
proof -
  have "retryLoop act m d a le tr = retryLoop act m d (a + 1) (Some e) (tr @ [Invoke a])"
    using assms by (subst retryLoop.simps) simp
  also have "\<dots> = (Inl (Some e), tr @ [Invoke a])"
    using assms by (intro retryLoop_stop) linarith
  finally show ?thesis .
qed

lemma retryLoop_first_success:
  assumes "a \<le> k" and "int k < m" and "\<forall>j. a \<le> j \<and> j < k \<longrightarrow> isl (act j)" and "act k = Inr v"
  shows "retryLoop act m d a le tr = (Inr v, tr @ failedAttempts d a k @ [Invoke k])"
  using assms
proof (induction "k - a" arbitrary: a le tr)
  case 0
  then have "a = k" by simp
  with 0 show ?case
    by (simp add: retryLoop_return failedAttempts_empty)
next
  case (Suc n)
  then have lt: "a < k" by simp
  with Suc.prems obtain e where e: "act a = Inl e"
    by (metis isl_def le_refl)
  from lt Suc.prems have more: "int a < m - 1" by simp
  have IH: "retryLoop act m d (Suc a) (Some e) (tr @ [Invoke a, Wait (d * 2 ^ a)])
     = (Inr v, (tr @ [Invoke a, Wait (d * 2 ^ a)]) @ failedAttempts d (Suc a) k @ [Invoke k])"
    using Suc.hyps Suc.prems lt by (intro Suc.hyps(1)) auto
  show ?case
    using IH lt by (simp add: retryLoop_wait [where act = act, OF more e] failedAttempts_step)
qed

lemma retryLoop_all_fail:
  assumes "int a < m" and "\<forall>j. a \<le> j \<and> int j < m \<longrightarrow> isl (act j)"
    and "act (nat m - 1) = Inl e"
  shows "retryLoop act m d a le tr =
         (Inl (Some e), tr @ failedAttempts d a (nat m - 1) @ [Invoke (nat m - 1)])"
  using assms
proof (induction "nat m - 1 - a" arbitrary: a le tr)
  case 0
  then have a: "a = nat m - 1" by linarith
  have final: "\<not> int a < m - 1" using a by linarith
  have "act a = Inl e" using a "0.prems" by simp
  from retryLoop_last [where act = act, OF "0.prems"(1) final this]
  show ?case using a by (simp add: failedAttempts_empty)
next
  case (Suc n)
  then have more: "int a < m - 1" by linarith
  then have lt: "a < nat m - 1" by linarith
  from Suc.prems obtain e' where e': "act a = Inl e'"
    by (metis isl_def le_refl)
  have IH: "retryLoop act m d (Suc a) (Some e') (tr @ [Invoke a, Wait (d * 2 ^ a)])
     = (Inl (Some e), (tr @ [Invoke a, Wait (d * 2 ^ a)]) @
          failedAttempts d (Suc a) (nat m - 1) @ [Invoke (nat m - 1)])"
    using Suc.hyps Suc.prems more by (intro Suc.hyps(1)) auto
  show ?case
    using IH lt by (simp add: retryLoop_wait [where act = act, OF more e'] failedAttempts_step)
qed

lemma invocations_append: "invocations (xs @ ys) = invocations xs + invocations ys"
  by (simp add: invocations_def)

lemma invocations_Invoke: "invocations [Invoke k] = 1"
  by (simp add: invocations_def)

lemma invocations_failedAttempts: "invocations (failedAttempts d a k) = k - a"
proof (induction "k - a" arbitrary: a)
  case 0
  then show ?case by (simp add: failedAttempts_def invocations_def)
next
  case (Suc n)
  then have "a < k" by simp
  then show ?case using Suc
    by (simp add: failedAttempts_step invocations_def)
qed

lemma least_success:
  fixes act :: "nat \<Rightarrow> 'e + 'a"
  assumes "\<not> isl (act k)"
  obtains k0 v where "k0 \<le> k" "act k0 = Inr v" "\<forall>j<k0. isl (act j)"
proof -
  define k0 where "k0 = (LEAST j. \<not> isl (act j))"
  have 1: "\<not> isl (act k0)"
    unfolding k0_def using assms by (rule LeastI [of "\<lambda>j. \<not> isl (act j)"])
  have 2: "k0 \<le> k"
    unfolding k0_def using assms by (rule Least_le [of "\<lambda>j. \<not> isl (act j)"])
  have 3: "\<forall>j<k0. isl (act j)"
    unfolding k0_def using not_less_Least by blast
  from 1 obtain v where "act k0 = Inr v" by (cases "act k0") auto
  with 2 3 that show thesis by blast
qed

lemma retryAction_invocations:
  "invocations (snd (retryAction act m d)) \<le> nat m"
proof (cases "0 < m")
  case False
  then show ?thesis by (simp add: retryAction_def retryLoop_stop invocations_def)
next
  case pos: True
  show ?thesis
  proof (cases "\<forall>j. int j < m \<longrightarrow> isl (act j)")
    case True
    have "int (nat m - 1) < m" using pos by linarith
    with True obtain e where "act (nat m - 1) = Inl e"
      by (metis isl_def)
    with True pos show ?thesis
      by (simp add: retryAction_def retryLoop_all_fail invocations_append
          invocations_failedAttempts invocations_Invoke)
  next
    case False
    then obtain k where k: "int k < m" "\<not> isl (act k)" by blast
    then obtain k0 v where k0: "k0 \<le> k" "act k0 = Inr v" "\<forall>j<k0. isl (act j)"
      using least_success by blast
    then have "int k0 < m" using k by linarith
    with k0 have "retryAction act m d = (Inr v, [] @ failedAttempts d 0 k0 @ [Invoke k0])"
      unfolding retryAction_def by (intro retryLoop_first_success) auto
    then show ?thesis using \<open>int k0 < m\<close>
      by (simp add: invocations_append invocations_failedAttempts invocations_Invoke)
  qed
qed

text \<open>
  Claim C9. \<^verbatim>\<open>retryAction\<close> invokes the action at most \<open>maxRetries\<close> times. When attempt
  \<open>k\<close> is the first that succeeds, it returns that result at once, having waited
  \<open>initialDelay * 2 ^ j\<close> after each failed attempt \<open>j < k\<close>. When every attempt fails it
  throws the error of the last attempt, with no wait after that attempt. (With
  \<open>maxRetries \<le> 0\<close> no attempt is made and what it throws is \<^verbatim>\<open>undefined\<close>.)
\<close>

theorem retryAction_backoff:
  "(\<forall>k v. int k < maxRetries \<and> (\<forall>j<k. isl (act j)) \<and> act k = Inr v \<longrightarrow>
      retryAction act maxRetries initialDelay
        = (Inr v, failedAttempts initialDelay 0 k @ [Invoke k])) \<and>
   (\<forall>e. 0 < maxRetries \<and> (\<forall>j. int j < maxRetries \<longrightarrow> isl (act j)) \<and>
        act (nat maxRetries - 1) = Inl e \<longrightarrow>
      retryAction act maxRetries initialDelay
        = (Inl (Some e),
           failedAttempts initialDelay 0 (nat maxRetries - 1) @ [Invoke (nat maxRetries - 1)])) \<and>
   (maxRetries \<le> 0 \<longrightarrow> retryAction act maxRetries initialDelay = (Inl None, [])) \<and>
   invocations (snd (retryAction act maxRetries initialDelay)) \<le> nat maxRetries"
proof (intro conjI allI impI)
  fix k v
  assume "int k < maxRetries \<and> (\<forall>j<k. isl (act j)) \<and> act k = Inr v"
  then have "retryLoop act maxRetries initialDelay 0 None []
             = (Inr v, [] @ failedAttempts initialDelay 0 k @ [Invoke k])"
    by (intro retryLoop_first_success) auto
  then show "retryAction act maxRetries initialDelay
             = (Inr v, failedAttempts initialDelay 0 k @ [Invoke k])"
    by (simp add: retryAction_def)
next
  fix e
  assume "0 < maxRetries \<and> (\<forall>j. int j < maxRetries \<longrightarrow> isl (act j)) \<and>
          act (nat maxRetries - 1) = Inl e"
  then have "retryLoop act maxRetries initialDelay 0 None []
             = (Inl (Some e), [] @ failedAttempts initialDelay 0 (nat maxRetries - 1) @
                 [Invoke (nat maxRetries - 1)])"
    by (intro retryLoop_all_fail) auto
  then show "retryAction act maxRetries initialDelay
        = (Inl (Some e),
           failedAttempts initialDelay 0 (nat maxRetries - 1) @ [Invoke (nat maxRetries - 1)])"
    by (simp add: retryAction_def)
next
  assume "maxRetries \<le> 0"
  then show "retryAction act maxRetries initialDelay = (Inl None, [])"
    by (simp add: retryAction_def retryLoop_stop)
next
  show "invocations (snd (retryAction act maxRetries initialDelay)) \<le> nat maxRetries"
    by (rule retryAction_invocations)
qed

theorem retryAction_backoff_witness:
  "retryAction failTwiceThenReturn 3 1000
     = (Inr 7, [Invoke 0, Wait 1000, Invoke 1, Wait 2000, Invoke 2]) \<and>
   retryAction alwaysFail 3 1000
     = (Inl (Some (Error ''attempt 2'')), [Invoke 0, Wait 1000, Invoke 1, Wait 2000, Invoke 2]) \<and>
   retryAction alwaysFail 0 1000 = (Inl None, []) \<and>
   invocations (snd (retryAction alwaysFail 3 1000)) \<le> 3"
proof -
  note spec = retryAction_backoff [of 3 failTwiceThenReturn 1000]
  note fail = retryAction_backoff [of 3 alwaysFail 1000]
  note none = retryAction_backoff [of 0 alwaysFail 1000]
  have upt: "[0..<2] = [0, 1]" by (simp add: upt_conv_Cons)
  have "\<forall>j<2. isl (failTwiceThenReturn j)" by (simp add: failTwiceThenReturn_def)
  moreover have "failTwiceThenReturn 2 = Inr 7" by (simp add: failTwiceThenReturn_def)
  ultimately have 1: "retryAction failTwiceThenReturn 3 1000
     = (Inr 7, failedAttempts 1000 0 2 @ [Invoke 2])"
    using spec by simp
  have "alwaysFail (nat 3 - 1) = Inl (Error ''attempt 2'')"
    by (simp add: alwaysFail_def showNat.simps digitChar_def)
  moreover have "\<forall>j. int j < 3 \<longrightarrow> isl (alwaysFail j)" by (simp add: alwaysFail_def)
  ultimately have 2: "retryAction alwaysFail 3 1000
     = (Inl (Some (Error ''attempt 2'')), failedAttempts 1000 0 (nat 3 - 1) @ [Invoke (nat 3 - 1)])"
    using fail by simp
  have 3: "retryAction alwaysFail 0 1000 = (Inl None, [])" using none by simp
  have 4: "invocations (snd (retryAction alwaysFail 3 1000)) \<le> 3" using fail by simp
  show ?thesis using 1 2 3 4 by (simp add: failedAttempts_def upt)
qed

end
